theory Spec2Isabelle
  imports Main "HOL-Library.Char_ord" "HOL-Library.List_Lexorder" "HOL-Library.AList"
    "HOL-Library.Product_Lexorder"
begin

section \<open>Thumbnail generator: the centre-square crop box\<close>

text \<open>
  \<^verbatim>\<open>scripts/generate-thumbnails.py\<close>, \<^verbatim>\<open>create_square_thumbnail\<close>, lines 21 to 35.
  Python integers are unbounded, so \<open>width\<close> and \<open>height\<close> are of type \<open>int\<close>;
  Python's \<^verbatim>\<open>//\<close> is floor division, as \<open>div\<close> on \<open>int\<close> is.
  The box is the tuple \<^verbatim>\<open>(left, top, right, bottom)\<close> handed to \<^verbatim>\<open>img.crop\<close>.
\<close>

definition THUMBNAIL_SIZE :: int where
  "THUMBNAIL_SIZE = 160"

definition JPEG_QUALITY :: int where
  "JPEG_QUALITY = 85"

definition crop_box :: "int \<Rightarrow> int \<Rightarrow> int \<times> int \<times> int \<times> int" where
  "crop_box width height =
     (if width > height then
        (let left = (width - height) div 2;
             top = 0;
             right = left + height;
             bottom = height
         in (left, top, right, bottom))
      else
        (let left = 0;
             top = (height - width) div 2;
             right = width;
             bottom = top + width
         in (left, top, right, bottom)))"

text \<open>Reading the four components of a box, and its extent along each axis.\<close>

definition box_left :: "int \<times> int \<times> int \<times> int \<Rightarrow> int" where
  "box_left b = (case b of (l, t, r, bo) \<Rightarrow> l)"

definition box_top :: "int \<times> int \<times> int \<times> int \<Rightarrow> int" where
  "box_top b = (case b of (l, t, r, bo) \<Rightarrow> t)"

definition box_right :: "int \<times> int \<times> int \<times> int \<Rightarrow> int" where
  "box_right b = (case b of (l, t, r, bo) \<Rightarrow> r)"

definition box_bottom :: "int \<times> int \<times> int \<times> int \<Rightarrow> int" where
  "box_bottom b = (case b of (l, t, r, bo) \<Rightarrow> bo)"

definition box_width :: "int \<times> int \<times> int \<times> int \<Rightarrow> int" where
  "box_width b = box_right b - box_left b"

definition box_height :: "int \<times> int \<times> int \<times> int \<Rightarrow> int" where
  "box_height b = box_bottom b - box_top b"

lemmas box_defs =
  box_left_def box_top_def box_right_def box_bottom_def box_width_def box_height_def

section \<open>Images and the imaging library\<close>

text \<open>
  Both scripts work on images of the Pillow library. An image has a mode (Pillow's mode
  string, such as \<^verbatim>\<open>RGB\<close>, \<^verbatim>\<open>RGBA\<close>, \<^verbatim>\<open>LA\<close>, \<^verbatim>\<open>P\<close>), a size \<^verbatim>\<open>(width, height)\<close> and pixel
  data. A pixel is the list of its band values, so a pixel of an \<^verbatim>\<open>RGBA\<close> image is
  \<open>[r, g, b, a]\<close> and one of an \<^verbatim>\<open>RGB\<close> image is \<open>[r, g, b]\<close>.
\<close>

type_synonym pixel = "int list"

record image =
  mode :: string
  size_wh :: "int \<times> int"
  pix :: "int \<times> int \<Rightarrow> pixel"

text \<open>
  What a \<^verbatim>\<open>save\<close> call hands to the encoder of its format: an image and the quality for
  JPEG, an image for PNG, and for ICO the frames that the file will hold, one image each.
\<close>

datatype save_args =
    SaveJPEG image int
  | SavePNG image
  | SaveICO "image list"

text \<open>
  What the scripts take from the library without fixing it themselves is a parameter:
  decoding a file (\<open>None\<close> when the bytes are not an image), encoding what a \<^verbatim>\<open>save\<close> call
  hands to the encoder into bytes, the pixel values that Lanczos resampling computes, the
  pixel values of a mode conversion, and \<^verbatim>\<open>Image.thumbnail\<close> on a copy of an image. The type
  \<open>'b\<close> is that of file contents.
\<close>

record 'b pil =
  decode :: "'b \<Rightarrow> image option"
  encode :: "save_args \<Rightarrow> 'b"
  resample :: "image \<Rightarrow> int \<times> int \<Rightarrow> int \<times> int \<Rightarrow> pixel"
  convert_pix :: "image \<Rightarrow> string \<Rightarrow> int \<times> int \<Rightarrow> pixel"
  thumbnail :: "image \<Rightarrow> int \<times> int \<Rightarrow> image"

text \<open>
  \<^verbatim>\<open>img.convert(m)\<close>: the result has mode \<open>m\<close> and the size of the source. From \<^verbatim>\<open>RGBA\<close>
  to \<^verbatim>\<open>RGB\<close> the library keeps the three colour bands and discards the alpha band.
\<close>

definition convert :: "'b pil \<Rightarrow> image \<Rightarrow> string \<Rightarrow> image" where
  "convert L img m =
     \<lparr>mode = m, size_wh = size_wh img,
      pix = (if mode img = ''RGBA'' \<and> m = ''RGB'' then (\<lambda>p. take 3 (pix img p))
             else convert_pix L img m)\<rparr>"

text \<open>
  \<^verbatim>\<open>img.crop((left, upper, right, lower))\<close>: same mode, size
  \<^verbatim>\<open>(right - left, lower - upper)\<close>, pixel \<open>(x, y)\<close> read at \<open>(x + left, y + upper)\<close>.
\<close>

definition crop :: "image \<Rightarrow> int \<times> int \<times> int \<times> int \<Rightarrow> image" where
  "crop img box =
     (case box of (left, upper, right, lower) \<Rightarrow>
        \<lparr>mode = mode img, size_wh = (right - left, lower - upper),
         pix = (\<lambda>(x, y). pix img (x + left, y + upper))\<rparr>)"

text \<open>\<^verbatim>\<open>img.resize(sz, Image.Resampling.LANCZOS)\<close>: same mode, size \<open>sz\<close>.\<close>

definition resize :: "'b pil \<Rightarrow> image \<Rightarrow> int \<times> int \<Rightarrow> image" where
  "resize L img sz = \<lparr>mode = mode img, size_wh = sz, pix = resample L img sz\<rparr>"

text \<open>\<^verbatim>\<open>Image.new(m, sz, color)\<close>: every pixel is \<open>color\<close>.\<close>

definition new_image :: "string \<Rightarrow> int \<times> int \<Rightarrow> pixel \<Rightarrow> image" where
  "new_image m sz color = \<lparr>mode = m, size_wh = sz, pix = (\<lambda>p. color)\<rparr>"

text \<open>
  \<^verbatim>\<open>dst.paste(src, (px, py), mask)\<close> with an \<^verbatim>\<open>RGBA\<close> mask: inside the pasted region each
  band of the destination is blended with the source, weighted by the mask's alpha band
  (the fourth band); the library rounds the division by 255 with shifts. Mode and size of
  the destination stay.
\<close>

definition div255 :: "int \<Rightarrow> int" where
  "div255 a = (let tmp = a + 128 in ((tmp div 256) + tmp) div 256)"

definition blend8 :: "int \<Rightarrow> int \<Rightarrow> int \<Rightarrow> int" where
  "blend8 a in1 in2 = div255 (in1 * (255 - a) + in2 * a)"

definition alpha_band :: "pixel \<Rightarrow> int" where
  "alpha_band p = p ! 3"

definition paste :: "image \<Rightarrow> image \<Rightarrow> int \<times> int \<Rightarrow> image \<Rightarrow> image" where
  "paste dst src pos msk =
     (case pos of (px, py) \<Rightarrow>
        dst\<lparr>pix :=
          (\<lambda>(x, y).
             if px \<le> x \<and> x < px + fst (size_wh src) \<and> py \<le> y \<and> y < py + snd (size_wh src)
             then (let a = alpha_band (pix msk (x - px, y - py))
                   in map2 (blend8 a) (pix dst (x, y)) (pix src (x - px, y - py)))
             else pix dst (x, y))\<rparr>)"

section \<open>Thumbnail generator: one thumbnail\<close>

text \<open>
  Lines 17 to 41 of \<^verbatim>\<open>create_square_thumbnail\<close>: the mode test, the crop box, the crop
  and the resize, on the decoded image.
\<close>

definition square_thumbnail :: "'b pil \<Rightarrow> image \<Rightarrow> int \<Rightarrow> image" where
  "square_thumbnail L img0 sz =
     (let img = (if mode img0 \<in> set [''RGBA'', ''P''] then convert L img0 ''RGB'' else img0);
          (width, height) = size_wh img;
          img_cropped = crop img (crop_box width height);
          img_thumbnail = resize L img_cropped (sz, sz)
      in img_thumbnail)"

section \<open>The file system\<close>

text \<open>
  A directory tree: a file holds its contents, a directory its entries by name. A path
  is the list of its components below the directory a function is given.
\<close>

datatype 'b node = File 'b | Dir "(string \<times> 'b node) list"

type_synonym path = "string list"

datatype error =
    FileNotFoundError
  | FileExistsError
  | NotADirectoryError
  | IsADirectoryError
  | UnidentifiedImageError
  | OSError
  | IndexError

fun lookup :: "'b node \<Rightarrow> path \<Rightarrow> 'b node option" where
  "lookup n [] = Some n"
| "lookup n (x # xs) =
     (case n of
        File b \<Rightarrow> None
      | Dir es \<Rightarrow> (case map_of es x of None \<Rightarrow> None | Some c \<Rightarrow> lookup c xs))"

text \<open>\<^verbatim>\<open>Path.exists()\<close> and \<^verbatim>\<open>Path.is_dir()\<close>; both are false for a missing path.\<close>

definition exists_path :: "'b node \<Rightarrow> path \<Rightarrow> bool" where
  "exists_path fs p = (case lookup fs p of None \<Rightarrow> False | Some n \<Rightarrow> True)"

definition is_dir :: "'b node \<Rightarrow> path \<Rightarrow> bool" where
  "is_dir fs p = (case lookup fs p of Some (Dir es) \<Rightarrow> True | _ \<Rightarrow> False)"

text \<open>
  \<^verbatim>\<open>sorted(p.iterdir())\<close>: the names of the entries of \<open>p\<close> in the order of Python's string
  comparison (character by character, by code). The entries share their parent, so
  ordering the paths is ordering the names.
\<close>

definition sorted_iterdir :: "'b node \<Rightarrow> path \<Rightarrow> error + string list" where
  "sorted_iterdir fs p =
     (case lookup fs p of
        None \<Rightarrow> Inl FileNotFoundError
      | Some (File b) \<Rightarrow> Inl NotADirectoryError
      | Some (Dir es) \<Rightarrow> Inr (sort (map fst es)))"

text \<open>\<^verbatim>\<open>p.mkdir(exist_ok=True)\<close>: an existing directory is kept, an existing file raises.\<close>

fun mkdir_exist_ok :: "'b node \<Rightarrow> path \<Rightarrow> error + 'b node" where
  "mkdir_exist_ok n [] = (case n of Dir es \<Rightarrow> Inr n | File b \<Rightarrow> Inl FileExistsError)"
| "mkdir_exist_ok n (x # xs) =
     (case n of
        File b \<Rightarrow> Inl NotADirectoryError
      | Dir es \<Rightarrow>
          (case map_of es x of
             None \<Rightarrow> (if xs = [] then Inr (Dir (es @ [(x, Dir [])])) else Inl FileNotFoundError)
           | Some c \<Rightarrow>
               (case mkdir_exist_ok c xs of
                  Inl e \<Rightarrow> Inl e
                | Inr c' \<Rightarrow> Inr (Dir (AList.update x c' es)))))"

text \<open>Opening a path for writing and storing \<open>b\<close>: creates the file or replaces its contents.\<close>

fun write_file :: "'b node \<Rightarrow> path \<Rightarrow> 'b \<Rightarrow> error + 'b node" where
  "write_file n [] b = (case n of Dir es \<Rightarrow> Inl IsADirectoryError | File old \<Rightarrow> Inr (File b))"
| "write_file n (x # xs) b =
     (case n of
        File old \<Rightarrow> Inl NotADirectoryError
      | Dir es \<Rightarrow>
          (case map_of es x of
             None \<Rightarrow> (if xs = [] then Inr (Dir (es @ [(x, File b)])) else Inl FileNotFoundError)
           | Some c \<Rightarrow>
               (case write_file c xs b of
                  Inl e \<Rightarrow> Inl e
                | Inr c' \<Rightarrow> Inr (Dir (AList.update x c' es)))))"

fun read_file :: "'b node \<Rightarrow> path \<Rightarrow> error + 'b" where
  "read_file n [] = (case n of Dir es \<Rightarrow> Inl IsADirectoryError | File b \<Rightarrow> Inr b)"
| "read_file n (x # xs) =
     (case n of
        File b \<Rightarrow> Inl NotADirectoryError
      | Dir es \<Rightarrow> (case map_of es x of None \<Rightarrow> Inl FileNotFoundError | Some c \<Rightarrow> read_file c xs))"

text \<open>\<^verbatim>\<open>Image.open(p)\<close>: reads the file and decodes it.\<close>

definition image_open :: "'b pil \<Rightarrow> 'b node \<Rightarrow> path \<Rightarrow> error + image" where
  "image_open L fs p =
     (case read_file fs p of
        Inl e \<Rightarrow> Inl e
      | Inr b \<Rightarrow> (case decode L b of None \<Rightarrow> Inl UnidentifiedImageError | Some img \<Rightarrow> Inr img))"

text \<open>
  \<^verbatim>\<open>img.save(p, format, ...)\<close>: the file is opened for writing, then the encoder runs. The
  JPEG encoder writes the modes of its table \<^verbatim>\<open>RAWMODE\<close> and raises \<^verbatim>\<open>OSError\<close> (cannot
  write mode) for any other; the PNG encoder, which also writes the frames of an ICO
  file, has its own table.
\<close>

definition JPEG_RAWMODE :: "string list" where
  "JPEG_RAWMODE = [''1'', ''L'', ''RGB'', ''RGBX'', ''CMYK'', ''YCbCr'']"

definition PNG_OUTMODES :: "string list" where
  "PNG_OUTMODES = [''1'', ''L'', ''LA'', ''I'', ''I;16'', ''I;16B'', ''P'', ''RGB'', ''RGBA'']"

fun writable :: "save_args \<Rightarrow> bool" where
  "writable (SaveJPEG img q) = (mode img \<in> set JPEG_RAWMODE)"
| "writable (SavePNG img) = (mode img \<in> set PNG_OUTMODES)"
| "writable (SaveICO frames) = list_all (\<lambda>i. mode i \<in> set PNG_OUTMODES) frames"

definition save :: "'b pil \<Rightarrow> 'b node \<Rightarrow> path \<Rightarrow> save_args \<Rightarrow> error + 'b node" where
  "save L fs p a =
     (case write_file fs p (encode L a) of
        Inl e \<Rightarrow> Inl e
      | Inr fs' \<Rightarrow> (if writable a then Inr fs' else Inl OSError))"

text \<open>
  \<^verbatim>\<open>im.save(p, format='ICO', sizes=sizes, append_images=append_images)\<close>. The library's ICO
  plugin (\<^verbatim>\<open>IcoImagePlugin._save\<close>) goes through the requested sizes, sorted and without
  repetition, and leaves out every size that is wider or higher than \<open>im\<close>, the image
  \<^verbatim>\<open>save\<close> is called on, or than 256. For a size it keeps, the frame is the first of \<open>im\<close>
  and the appended images that has exactly that size, and a thumbnail of a copy of \<open>im\<close>
  when there is none. The frames are written in that order, each encoded as PNG.
\<close>

definition ico_frames ::
  "'b pil \<Rightarrow> image \<Rightarrow> (int \<times> int) list \<Rightarrow> image list \<Rightarrow> image list" where
  "ico_frames L im sizes append_images =
     (let provided_ims = im # append_images;
          (width, height) = size_wh im
      in concat
           (map (\<lambda>sz.
                   if fst sz > width \<or> snd sz > height \<or> fst sz > 256 \<or> snd sz > 256 then []
                   else (case filter (\<lambda>provided_im. size_wh provided_im = sz) provided_ims of
                           provided_im # rest \<Rightarrow> [provided_im]
                         | [] \<Rightarrow> [thumbnail L im sz]))
                (sort (remdups sizes))))"

definition save_ico ::
  "'b pil \<Rightarrow> 'b node \<Rightarrow> path \<Rightarrow> image \<Rightarrow> (int \<times> int) list \<Rightarrow> image list
     \<Rightarrow> error + 'b node" where
  "save_ico L fs p im sizes append_images =
     save L fs p (SaveICO (ico_frames L im sizes append_images))"

text \<open>\<^verbatim>\<open>create_square_thumbnail(input_path, output_path, size)\<close>, lines 14 to 44.\<close>

definition create_square_thumbnail ::
  "'b pil \<Rightarrow> 'b node \<Rightarrow> path \<Rightarrow> path \<Rightarrow> int \<Rightarrow> error + 'b node" where
  "create_square_thumbnail L fs input_path output_path sz =
     (case image_open L fs input_path of
        Inl e \<Rightarrow> Inl e
      | Inr img \<Rightarrow> save L fs output_path (SaveJPEG (square_thumbnail L img sz) JPEG_QUALITY))"

section \<open>File names\<close>

text \<open>
  \<^verbatim>\<open>PurePath.suffix\<close> and \<^verbatim>\<open>PurePath.stem\<close>: with \<open>i\<close> the index of the last dot of the
  name, the suffix is \<^verbatim>\<open>name[i:]\<close> and the stem \<^verbatim>\<open>name[:i]\<close> when \<^verbatim>\<open>0 < i < len(name) - 1\<close>;
  otherwise the suffix is empty and the stem is the whole name. \<^verbatim>\<open>str.rfind\<close> returns
  \<^verbatim>\<open>-1\<close> when there is no dot, here \<open>None\<close>.
\<close>

fun rfind :: "char \<Rightarrow> string \<Rightarrow> nat option" where
  "rfind c [] = None"
| "rfind c (x # xs) =
     (case rfind c xs of
        Some i \<Rightarrow> Some (Suc i)
      | None \<Rightarrow> (if x = c then Some 0 else None))"

definition suffix :: "string \<Rightarrow> string" where
  "suffix name =
     (case rfind (CHR ''.'') name of
        None \<Rightarrow> []
      | Some i \<Rightarrow> (if 0 < i \<and> i < length name - 1 then drop i name else []))"

definition stem :: "string \<Rightarrow> string" where
  "stem name =
     (case rfind (CHR ''.'') name of
        None \<Rightarrow> name
      | Some i \<Rightarrow> (if 0 < i \<and> i < length name - 1 then take i name else name))"

text \<open>\<^verbatim>\<open>str.lower()\<close> on the bytes of a name: the letters A to Z are mapped to a to z.\<close>

definition lower_char :: "char \<Rightarrow> char" where
  "lower_char c =
     (if CHR ''A'' \<le> c \<and> c \<le> CHR ''Z'' then char_of (of_char c + (32::nat)) else c)"

definition lower :: "string \<Rightarrow> string" where
  "lower s = map lower_char s"

definition IMAGE_SUFFIXES :: "string list" where
  "IMAGE_SUFFIXES = [''.jpg'', ''.jpeg'', ''.png'', ''.webp'']"

definition endswith :: "string \<Rightarrow> string \<Rightarrow> bool" where
  "endswith s suf = (length suf \<le> length s \<and> drop (length s - length suf) s = suf)"

text \<open>\<^verbatim>\<open>str(n)\<close> for an integer: its decimal digits.\<close>

fun str_nat :: "nat \<Rightarrow> string" where
  "str_nat n =
     (if n < 10 then [char_of (48 + n)]
      else str_nat (n div 10) @ [char_of (48 + n mod 10)])"

definition str_int :: "int \<Rightarrow> string" where
  "str_int i = (if i < 0 then CHR ''-'' # str_nat (nat (- i)) else str_nat (nat i))"

section \<open>Thumbnail generator: walking the tree\<close>

text \<open>
  What the scripts print, one constructor for each \<^verbatim>\<open>print\<close> statement, with the values it
  interpolates:
  \<^item> \<open>TrailsNotFound p\<close>: \<^verbatim>\<open>Trails directory not found at {trails_dir}\<close>;
  \<^item> \<open>NoPhotosDir p\<close>: \<^verbatim>\<open>No photos directory found at {photos_dir}\<close>;
  \<^item> \<open>ThumbLine n t\<close>: \<^verbatim>\<open>  {img_file.name} -> thumbs/{thumb_name}\<close>;
  \<^item> \<open>ProcessedWaypoint n k\<close>: \<^verbatim>\<open>Processed waypoint {waypoint_dir.name}: {k} thumbnails\<close>;
  \<^item> \<open>ProcessingTrail n\<close>: \<^verbatim>\<open>Processing trail: {trail_dir.name}\<close>;
  \<^item> \<open>Created n sizes\<close>: \<^verbatim>\<open>Created {output_path.name} (...)\<close> with the sizes listed;
  \<^item> \<open>Done\<close>: \<^verbatim>\<open>Done!\<close>.
\<close>

datatype message =
    TrailsNotFound path
  | NoPhotosDir path
  | ThumbLine string string
  | ProcessedWaypoint string nat
  | ProcessingTrail string
  | Created string "(int \<times> int) list"
  | Done

text \<open>
  A function that works below a directory receives the subtree of that directory and
  returns it updated together with the lines it printed; its caller stores the subtree
  back under the same name. A raised exception is \<open>Inl\<close> and ends every enclosing loop,
  as nothing in the scripts catches it.
\<close>

definition put :: "'b node \<Rightarrow> string \<Rightarrow> 'b node \<Rightarrow> 'b node" where
  "put d name c = (case d of Dir es \<Rightarrow> Dir (AList.update name c es) | File b \<Rightarrow> File b)"

text \<open>\<^verbatim>\<open>len(list(d.glob('*.jpg')))\<close>: the entries of \<open>d\<close> whose name ends in \<^verbatim>\<open>.jpg\<close>.\<close>

definition glob_jpg_count :: "'b node \<Rightarrow> path \<Rightarrow> nat" where
  "glob_jpg_count fs p =
     (case lookup fs p of
        Some (Dir es) \<Rightarrow> length (filter (\<lambda>n. endswith n ''.jpg'') (map fst es))
      | _ \<Rightarrow> 0)"

text \<open>
  The loop of lines 65 to 78 over the sorted entries of a waypoint directory; \<open>wp\<close> is
  the subtree of the waypoint directory.
\<close>

fun images_loop ::
  "'b pil \<Rightarrow> string list \<Rightarrow> 'b node \<times> message list \<Rightarrow> error + 'b node \<times> message list" where
  "images_loop L [] st = Inr st"
| "images_loop L (name # rest) (wp, out) =
     (if is_dir wp [name] then images_loop L rest (wp, out)
      else if lower (suffix name) \<notin> set IMAGE_SUFFIXES then images_loop L rest (wp, out)
      else
        (let thumb_name = stem name @ ''.jpg''
         in case create_square_thumbnail L wp [name] [''thumbs'', thumb_name] THUMBNAIL_SIZE of
              Inl e \<Rightarrow> Inl e
            | Inr wp' \<Rightarrow> images_loop L rest (wp', out @ [ThumbLine name thumb_name])))"

text \<open>The body of the loop over waypoint directories, lines 60 to 80.\<close>

definition process_waypoint ::
  "'b pil \<Rightarrow> string \<Rightarrow> 'b node \<Rightarrow> error + 'b node \<times> message list" where
  "process_waypoint L name wp =
     (case mkdir_exist_ok wp [''thumbs''] of
        Inl e \<Rightarrow> Inl e
      | Inr wp1 \<Rightarrow>
          (case sorted_iterdir wp1 [] of
             Inl e \<Rightarrow> Inl e
           | Inr names \<Rightarrow>
               (case images_loop L names (wp1, []) of
                  Inl e \<Rightarrow> Inl e
                | Inr (wp2, out) \<Rightarrow>
                    Inr (wp2, out @ [ProcessedWaypoint name (glob_jpg_count wp2 [''thumbs''])]))))"

text \<open>The loop of lines 56 to 80; \<open>photos\<close> is the subtree of the photos directory.\<close>

fun waypoints_loop ::
  "'b pil \<Rightarrow> string list \<Rightarrow> 'b node \<times> message list \<Rightarrow> error + 'b node \<times> message list" where
  "waypoints_loop L [] st = Inr st"
| "waypoints_loop L (name # rest) (photos, out) =
     (case lookup photos [name] of
        Some (Dir es) \<Rightarrow>
          (case process_waypoint L name (Dir es) of
             Inl e \<Rightarrow> Inl e
           | Inr (wp', out') \<Rightarrow> waypoints_loop L rest (put photos name wp', out @ out'))
      | _ \<Rightarrow> waypoints_loop L rest (photos, out))"

text \<open>\<^verbatim>\<open>process_trail(trail_path)\<close>; \<open>trail\<close> is the subtree at \<open>trail_path\<close>.\<close>

definition process_trail ::
  "'b pil \<Rightarrow> path \<Rightarrow> 'b node \<Rightarrow> error + 'b node \<times> message list" where
  "process_trail L trail_path trail =
     (let photos_dir = trail_path @ [''photos'']
      in if \<not> exists_path trail [''photos''] then Inr (trail, [NoPhotosDir photos_dir])
         else
           (case sorted_iterdir trail [''photos''] of
              Inl e \<Rightarrow> Inl e
            | Inr names \<Rightarrow>
                (case lookup trail [''photos''] of
                   None \<Rightarrow> Inl FileNotFoundError
                 | Some photos \<Rightarrow>
                     (case waypoints_loop L names (photos, []) of
                        Inl e \<Rightarrow> Inl e
                      | Inr (photos', out) \<Rightarrow> Inr (put trail ''photos'' photos', out)))))"

text \<open>The loop of lines 93 to 98; \<open>trails\<close> is the subtree of the trails directory.\<close>

fun trails_loop ::
  "'b pil \<Rightarrow> path \<Rightarrow> string list \<Rightarrow> 'b node \<times> message list
     \<Rightarrow> error + 'b node \<times> message list" where
  "trails_loop L trails_dir [] st = Inr st"
| "trails_loop L trails_dir (name # rest) (trails, out) =
     (case lookup trails [name] of
        Some (Dir es) \<Rightarrow>
          (case process_trail L (trails_dir @ [name]) (Dir es) of
             Inl e \<Rightarrow> Inl e
           | Inr (trail', out') \<Rightarrow>
               trails_loop L trails_dir rest
                 (put trails name trail', out @ [ProcessingTrail name] @ out'))
      | _ \<Rightarrow> trails_loop L trails_dir rest (trails, out))"

text \<open>
  \<^verbatim>\<open>main()\<close>; \<open>root\<close> is the subtree of the project directory \<^verbatim>\<open>script_dir.parent\<close> and
  \<open>root_dir\<close> its path.
\<close>

definition main :: "'b pil \<Rightarrow> path \<Rightarrow> 'b node \<Rightarrow> error + 'b node \<times> message list" where
  "main L root_dir root =
     (let trails_dir = root_dir @ [''trails'']
      in if \<not> exists_path root [''trails''] then Inr (root, [TrailsNotFound trails_dir])
         else
           (case sorted_iterdir root [''trails''] of
              Inl e \<Rightarrow> Inl e
            | Inr names \<Rightarrow>
                (case lookup root [''trails''] of
                   None \<Rightarrow> Inl FileNotFoundError
                 | Some trails \<Rightarrow>
                     (case trails_loop L trails_dir names (trails, []) of
                        Inl e \<Rightarrow> Inl e
                      | Inr (trails', out) \<Rightarrow> Inr (put root ''trails'' trails', out @ [Done])))))"

section \<open>Icon generator\<close>

text \<open>
  Lines 33 to 36 and 45 to 48 of \<^verbatim>\<open>generate_icons\<close>: a white \<^verbatim>\<open>RGB\<close> canvas of the target
  size, the logo resized to that size, pasted at the origin with itself as the mask.
\<close>

definition composite_on_white :: "'b pil \<Rightarrow> image \<Rightarrow> int \<Rightarrow> image" where
  "composite_on_white L img sz =
     (let background = new_image ''RGB'' (sz, sz) [255, 255, 255];
          resized = resize L img (sz, sz)
      in paste background resized (0, 0) resized)"

text \<open>Lines 18 to 20: the logo is brought to mode \<^verbatim>\<open>RGBA\<close>.\<close>

definition ensure_rgba :: "'b pil \<Rightarrow> image \<Rightarrow> image" where
  "ensure_rgba L img = (if mode img \<noteq> ''RGBA'' then convert L img ''RGBA'' else img)"

text \<open>The loop of lines 24 to 28 over the sizes of the PWA icons.\<close>

fun pwa_loop ::
  "'b pil \<Rightarrow> image \<Rightarrow> int list \<Rightarrow> 'b node \<times> message list \<Rightarrow> error + 'b node \<times> message list" where
  "pwa_loop L img [] st = Inr st"
| "pwa_loop L img (sz # rest) (fs, out) =
     (let resized = resize L img (sz, sz);
          output_name = ''icon-'' @ str_int sz @ ''.png''
      in case save L fs [''icons'', output_name] (SavePNG resized) of
           Inl e \<Rightarrow> Inl e
         | Inr fs' \<Rightarrow> pwa_loop L img rest (fs', out @ [Created output_name [(sz, sz)]]))"

text \<open>\<^verbatim>\<open>generate_icons()\<close>; \<open>root\<close> is the subtree of the project directory.\<close>

definition generate_icons :: "'b pil \<Rightarrow> 'b node \<Rightarrow> error + 'b node \<times> message list" where
  "generate_icons L root =
     (case mkdir_exist_ok root [''icons''] of
        Inl e \<Rightarrow> Inl e
      | Inr fs0 \<Rightarrow>
     (case image_open L fs0 [''images'', ''fcf-logo.png''] of
        Inl e \<Rightarrow> Inl e
      | Inr img0 \<Rightarrow>
     (let img = ensure_rgba L img0
      in case pwa_loop L img [192, 512] (fs0, []) of
        Inl e \<Rightarrow> Inl e
      | Inr (fs1, out1) \<Rightarrow>
     (let apple_size = 180;
          background = composite_on_white L img apple_size
      in case save L fs1 [''icons'', ''apple-touch-icon.png''] (SavePNG background) of
        Inl e \<Rightarrow> Inl e
      | Inr fs2 \<Rightarrow>
     (let out2 = out1 @ [Created ''apple-touch-icon.png'' [(apple_size, apple_size)]];
          favicon_sizes = [16, 32, 48];
          favicon_images = map (composite_on_white L img) favicon_sizes
      in case favicon_images of
        [] \<Rightarrow> Inl IndexError
      | first # others \<Rightarrow>
     (case save_ico L fs2 [''icons'', ''favicon.ico'']
             first [(16, 16), (32, 32), (48, 48)] others of
        Inl e \<Rightarrow> Inl e
      | Inr fs3 \<Rightarrow>
     (let out3 = out2 @ [Created ''favicon.ico'' [(16, 16), (32, 32), (48, 48)]];
          resized = resize L img (32, 32)
      in case save L fs3 [''icons'', ''favicon-32.png''] (SavePNG resized) of
        Inl e \<Rightarrow> Inl e
      | Inr fs4 \<Rightarrow> Inr (fs4, out3 @ [Created ''favicon-32.png'' [(32, 32)], Done]))))))))"

text \<open>
  The loop of lines 65 to 78 seen from the thumbs directory: \<open>es\<close> are the entries of the
  waypoint directory, which the loop only reads, and \<open>ths\<close> the entries of its thumbs
  directory, which it updates.
\<close>

definition thumbnail_args :: "'b pil \<Rightarrow> image \<Rightarrow> save_args" where
  "thumbnail_args L img = SaveJPEG (square_thumbnail L img THUMBNAIL_SIZE) JPEG_QUALITY"

fun thumbs_loop ::
  "'b pil \<Rightarrow> (string \<times> 'b node) list \<Rightarrow> string list \<Rightarrow> (string \<times> 'b node) list
     \<Rightarrow> error + (string \<times> 'b node) list" where
  "thumbs_loop L es [] ths = Inr ths"
| "thumbs_loop L es (name # rest) ths =
     (case map_of es name of
        Some (Dir d) \<Rightarrow> thumbs_loop L es rest ths
      | Some (File b) \<Rightarrow>
          if lower (suffix name) \<notin> set IMAGE_SUFFIXES then thumbs_loop L es rest ths
          else
            (case decode L b of
               None \<Rightarrow> Inl UnidentifiedImageError
             | Some img \<Rightarrow>
                 (case map_of ths (stem name @ ''.jpg'') of
                    Some (Dir d) \<Rightarrow> Inl IsADirectoryError
                  | _ \<Rightarrow>
                      if writable (thumbnail_args L img)
                      then thumbs_loop L es rest
                             (AList.update (stem name @ ''.jpg'')
                                (File (encode L (thumbnail_args L img))) ths)
                      else Inl OSError))
      | None \<Rightarrow>
          if lower (suffix name) \<notin> set IMAGE_SUFFIXES then thumbs_loop L es rest ths
          else Inl FileNotFoundError)"

text \<open>An entry that the loop turns into a thumbnail: a file with an image suffix.\<close>

definition selected :: "(string \<times> 'b node) list \<Rightarrow> string \<Rightarrow> bool" where
  "selected es name =
     (case map_of es name of
        Some (File b) \<Rightarrow> lower (suffix name) \<in> set IMAGE_SUFFIXES
      | _ \<Rightarrow> False)"

definition thumb_line :: "string \<Rightarrow> message" where
  "thumb_line name = ThumbLine name (stem name @ ''.jpg'')"

definition thumbs_entries :: "(string \<times> 'b node) list \<Rightarrow> (string \<times> 'b node) list" where
  "thumbs_entries es = (case map_of es ''thumbs'' of Some (Dir t) \<Rightarrow> t | _ \<Rightarrow> [])"

definition inputs :: "(string \<times> 'b node) list \<Rightarrow> string list" where
  "inputs es = filter (selected es) (sort (map fst es))"

definition jpg_count :: "(string \<times> 'b node) list \<Rightarrow> nat" where
  "jpg_count ths = length (filter (\<lambda>n. endswith n ''.jpg'') (map fst ths))"

text \<open>The names of a list whose thumbnail goes to \<open>t\<close>.\<close>

definition writers :: "(string \<times> 'b node) list \<Rightarrow> string list \<Rightarrow> string \<Rightarrow> string list" where
  "writers es names t = filter (\<lambda>k. selected es k \<and> stem k @ ''.jpg'' = t) names"

text \<open>
  The two outer loops have one shape: for each name of a sorted listing, skip what is
  not a directory, run a body on the subtree, store the subtree back and append what the
  body printed. \<open>each_dir\<close> is that shape with the body as a parameter.
\<close>

fun each_dir ::
  "(string \<Rightarrow> 'b node \<Rightarrow> error + 'b node \<times> message list) \<Rightarrow> string list
     \<Rightarrow> 'b node \<times> message list \<Rightarrow> error + 'b node \<times> message list" where
  "each_dir f [] st = Inr st"
| "each_dir f (name # rest) (d, out) =
     (case lookup d [name] of
        Some (Dir es) \<Rightarrow>
          (case f name (Dir es) of
             Inl e \<Rightarrow> Inl e
           | Inr (c', out') \<Rightarrow> each_dir f rest (put d name c', out @ out'))
      | _ \<Rightarrow> each_dir f rest (d, out))"

definition trail_body ::
  "'b pil \<Rightarrow> path \<Rightarrow> string \<Rightarrow> 'b node \<Rightarrow> error + 'b node \<times> message list" where
  "trail_body L trails_dir name trail =
     (case process_trail L (trails_dir @ [name]) trail of
        Inl e \<Rightarrow> Inl e
      | Inr (trail', out) \<Rightarrow> Inr (trail', ProcessingTrail name # out))"

text \<open>A body keeps directories directories, and running it again changes nothing.\<close>

definition keeps_dir :: "(string \<Rightarrow> 'b node \<Rightarrow> error + 'b node \<times> message list) \<Rightarrow> bool" where
  "keeps_dir f = (\<forall>n es c out. f n (Dir es) = Inr (c, out) \<longrightarrow> (\<exists>es'. c = Dir es'))"

definition idem_body :: "(string \<Rightarrow> 'b node \<Rightarrow> error + 'b node \<times> message list) \<Rightarrow> bool" where
  "idem_body f = (\<forall>n es c out. f n (Dir es) = Inr (c, out) \<longrightarrow> f n c = Inr (c, out))"

definition dirs_only :: "(string \<times> 'b node) list \<Rightarrow> (string \<times> 'b node) list" where
  "dirs_only es = filter (\<lambda>(n, c). case c of Dir d \<Rightarrow> True | File b \<Rightarrow> False) es"

section \<open>A small library and small trees to run the scripts on\<close>

text \<open>
  File contents here are a mode, a size and one pixel value: the file decodes to an
  image of that mode and size whose pixels all have that value, and an empty mode is a
  file that is not an image. Encoding keeps the format name and the size and first pixel
  of the image, for an ICO file those of its first frame. Resampling an image whose
  pixels are all equal gives that pixel again, but for the modes with an alpha band,
  which the library resamples with the colour bands multiplied by alpha: there the colour
  bands go through the multiplication and the division back. The thumbnail of an image
  that is larger than the size asked for has that size.
\<close>

type_synonym demo_bytes = "string \<times> (int \<times> int) \<times> pixel"

definition demo_resample :: "image \<Rightarrow> int \<times> int \<Rightarrow> int \<times> int \<Rightarrow> pixel" where
  "demo_resample img sz p =
     (let c = pix img (0, 0)
      in if mode img \<in> set [''RGBA'', ''LA''] \<and> c \<noteq> [] then
           (let a = last c
            in map (\<lambda>v. if a = 0 \<or> a = 255 then div255 (v * a)
                        else min 255 ((255 * div255 (v * a)) div a)) (butlast c) @ [a])
         else c)"

definition demo_pil :: "demo_bytes pil" where
  "demo_pil =
     \<lparr>decode = (\<lambda>b. case b of (m, sz, c) \<Rightarrow>
                  if m = [] then None else Some \<lparr>mode = m, size_wh = sz, pix = (\<lambda>p. c)\<rparr>),
      encode = (\<lambda>a. case a of
                  SaveJPEG img q \<Rightarrow> (''JPEG'', size_wh img, pix img (0, 0))
                | SavePNG img \<Rightarrow> (''PNG'', size_wh img, pix img (0, 0))
                | SaveICO frames \<Rightarrow>
                    (case frames of
                       [] \<Rightarrow> (''ICO'', (0, 0), [])
                     | img # others \<Rightarrow> (''ICO'', size_wh img, pix img (0, 0)))),
      resample = demo_resample,
      convert_pix = (\<lambda>img m p. if m = ''RGBA'' then take 3 (pix img p) @ [255]
                                 else take 3 (pix img p)),
      thumbnail = (\<lambda>img sz. if fst (size_wh img) \<le> fst sz \<and> snd (size_wh img) \<le> snd sz
                             then img else img\<lparr>size_wh := sz\<rparr>)\<rparr>"

text \<open>A project directory with a fully transparent logo.\<close>

definition demo_logo :: image where
  "demo_logo = \<lparr>mode = ''RGBA'', size_wh = (400, 300), pix = (\<lambda>p. [10, 20, 30, 0])\<rparr>"

definition demo_project :: "demo_bytes node" where
  "demo_project =
     Dir [(''images'', Dir [(''fcf-logo.png'', File (''RGBA'', (400, 300), [10, 20, 30, 0]))]),
          (''scripts'', Dir [])]"

definition demo_project_icons :: "demo_bytes node" where
  "demo_project_icons =
     Dir [(''images'', Dir [(''fcf-logo.png'', File (''RGBA'', (400, 300), [10, 20, 30, 0]))]),
          (''scripts'', Dir []),
          (''icons'',
            Dir [(''icon-192.png'', File (''PNG'', (192, 192), [0, 0, 0, 0])),
                 (''icon-512.png'', File (''PNG'', (512, 512), [0, 0, 0, 0])),
                 (''apple-touch-icon.png'', File (''PNG'', (180, 180), [255, 255, 255])),
                 (''favicon.ico'', File (''ICO'', (16, 16), [255, 255, 255])),
                 (''favicon-32.png'', File (''PNG'', (32, 32), [0, 0, 0, 0]))])]"

definition demo_icons_out :: "message list" where
  "demo_icons_out =
     [Created ''icon-192.png'' [(192, 192)], Created ''icon-512.png'' [(512, 512)],
      Created ''apple-touch-icon.png'' [(180, 180)],
      Created ''favicon.ico'' [(16, 16), (32, 32), (48, 48)],
      Created ''favicon-32.png'' [(32, 32)], Done]"

text \<open>A project directory whose logo is half transparent.\<close>

definition demo_half_logo :: image where
  "demo_half_logo = \<lparr>mode = ''RGBA'', size_wh = (400, 300), pix = (\<lambda>p. [10, 20, 30, 128])\<rparr>"

definition demo_project_half :: "demo_bytes node" where
  "demo_project_half =
     Dir [(''images'', Dir [(''fcf-logo.png'', File (''RGBA'', (400, 300), [10, 20, 30, 128]))]),
          (''scripts'', Dir [])]"

definition demo_project_half_icons :: "demo_bytes node" where
  "demo_project_half_icons =
     Dir [(''images'', Dir [(''fcf-logo.png'', File (''RGBA'', (400, 300), [10, 20, 30, 128]))]),
          (''scripts'', Dir []),
          (''icons'',
            Dir [(''icon-192.png'', File (''PNG'', (192, 192), [9, 19, 29, 128])),
                 (''icon-512.png'', File (''PNG'', (512, 512), [9, 19, 29, 128])),
                 (''apple-touch-icon.png'', File (''PNG'', (180, 180), [132, 137, 142])),
                 (''favicon.ico'', File (''ICO'', (16, 16), [132, 137, 142])),
                 (''favicon-32.png'', File (''PNG'', (32, 32), [9, 19, 29, 128]))])]"

text \<open>A waypoint directory holding one greyscale image with an alpha band.\<close>

definition la_image :: image where
  "la_image = \<lparr>mode = ''LA'', size_wh = (300, 200), pix = (\<lambda>p. [7, 128])\<rparr>"

definition la_waypoint :: "demo_bytes node" where
  "la_waypoint = Dir [(''g.png'', File (''LA'', (300, 200), [7, 128]))]"

text \<open>
  \<open>icon_files L logo fs\<close>: the five files under \<^verbatim>\<open>icons/\<close> hold the encodings of the images
  built from \<open>logo\<close>; \<open>frames_of\<close> are the images that an encoded file holds.
\<close>

fun frames_of :: "save_args \<Rightarrow> image list" where
  "frames_of (SaveJPEG img q) = [img]"
| "frames_of (SavePNG img) = [img]"
| "frames_of (SaveICO frames) = frames"

definition icon_files :: "'b pil \<Rightarrow> image \<Rightarrow> 'b node \<Rightarrow> bool" where
  "icon_files L logo fs =
     (read_file fs [''icons'', ''icon-192.png'']
        = Inr (encode L (SavePNG (resize L logo (192, 192))))
    \<and> read_file fs [''icons'', ''icon-512.png'']
        = Inr (encode L (SavePNG (resize L logo (512, 512))))
    \<and> read_file fs [''icons'', ''apple-touch-icon.png'']
        = Inr (encode L (SavePNG (composite_on_white L logo 180)))
    \<and> read_file fs [''icons'', ''favicon.ico'']
        = Inr (encode L (SaveICO [composite_on_white L logo 16]))
    \<and> read_file fs [''icons'', ''favicon-32.png'']
        = Inr (encode L (SavePNG (resize L logo (32, 32)))))"

definition one_photo :: "demo_bytes node" where
  "one_photo = Dir [(''a.jpg'', File (''RGB'', (300, 200), [9, 8, 7])), (''thumbs'', Dir [])]"

definition one_photo_done :: "demo_bytes node" where
  "one_photo_done =
     Dir [(''a.jpg'', File (''RGB'', (300, 200), [9, 8, 7])),
          (''thumbs'', Dir [(''a.jpg'', File (''JPEG'', (160, 160), [9, 8, 7]))])]"

definition demo_waypoint_entries :: "(string \<times> demo_bytes node) list" where
  "demo_waypoint_entries =
     [(''img.png'', File (''RGBA'', (200, 300), [1, 2, 3, 4])),
      (''img.JPG'', File (''RGB'', (300, 200), [9, 8, 7])),
      (''notes.txt'', File ([], (0, 0), [])),
      (''old'', Dir [(''x.jpg'', File (''RGB'', (10, 10), [5, 5, 5]))])]"

definition demo_waypoint_done :: "demo_bytes node" where
  "demo_waypoint_done =
     Dir (demo_waypoint_entries
          @ [(''thumbs'', Dir [(''img.jpg'', File (''JPEG'', (160, 160), [1, 2, 3]))])])"

definition demo_waypoint_out :: "message list" where
  "demo_waypoint_out =
     [ThumbLine ''img.JPG'' ''img.jpg'', ThumbLine ''img.png'' ''img.jpg'',
      ProcessedWaypoint ''W1'' 1]"

definition demo_photos_entries :: "(string \<times> demo_bytes node) list" where
  "demo_photos_entries =
     [(''W1'', Dir demo_waypoint_entries), (''index.txt'', File ([], (0, 0), []))]"

definition demo_trails_entries :: "(string \<times> demo_bytes node) list" where
  "demo_trails_entries =
     [(''README.md'', File ([], (0, 0), [])),
      (''B'', Dir []),
      (''A'', Dir [(''photos'', Dir demo_photos_entries)])]"

definition demo_root_entries :: "(string \<times> demo_bytes node) list" where
  "demo_root_entries = [(''scripts'', Dir []), (''trails'', Dir demo_trails_entries)]"

definition demo_photos_done :: "(string \<times> demo_bytes node) list" where
  "demo_photos_done =
     [(''W1'', demo_waypoint_done), (''index.txt'', File ([], (0, 0), []))]"

definition demo_trails_done :: "(string \<times> demo_bytes node) list" where
  "demo_trails_done =
     [(''README.md'', File ([], (0, 0), [])),
      (''B'', Dir []),
      (''A'', Dir [(''photos'', Dir demo_photos_done)])]"

definition demo_root_done :: "demo_bytes node" where
  "demo_root_done = Dir [(''scripts'', Dir []), (''trails'', Dir demo_trails_done)]"

definition demo_main_out :: "message list" where
  "demo_main_out =
     [ProcessingTrail ''A'', ThumbLine ''img.JPG'' ''img.jpg'', ThumbLine ''img.png'' ''img.jpg'',
      ProcessedWaypoint ''W1'' 1, ProcessingTrail ''B'',
      NoPhotosDir [''proj'', ''trails'', ''B'', ''photos''], Done]"

section \<open>Properties of the crop box\<close>

text \<open>
  Claim C1. For an image of width \<open>w\<close> and height \<open>h\<close>: when \<open>w > h\<close> the box starts at
  \<open>left = (w - h) div 2\<close>, \<open>top = 0\<close>, is \<open>h\<close> wide and spans the full height; otherwise it
  starts at \<open>left = 0\<close>, \<open>top = (h - w) div 2\<close>, spans the full width and is \<open>w\<close> high.
  In both cases the box is a square of side \<open>min w h\<close>.
\<close>

theorem C1_crop_box_center_square:
  "(let b = crop_box w h in
      (if w > h
       then box_left b = (w - h) div 2 \<and> box_top b = 0 \<and> box_width b = h
            \<and> box_bottom b = h \<and> box_height b = h
       else box_left b = 0 \<and> box_top b = (h - w) div 2 \<and> box_right b = w
            \<and> box_width b = w \<and> box_height b = w)
      \<and> box_width b = min w h \<and> box_height b = min w h)"
  by (simp add: crop_box_def box_defs Let_def)

theorem C1_crop_box_center_square_witness:
  "box_left (crop_box 300 200) = 50 \<and> box_top (crop_box 300 200) = 0
   \<and> box_width (crop_box 300 200) = 200 \<and> box_height (crop_box 300 200) = 200
   \<and> box_top (crop_box 200 301) = 50 \<and> box_left (crop_box 200 301) = 0
   \<and> box_width (crop_box 200 301) = 200 \<and> box_height (crop_box 200 301) = 200"
  using C1_crop_box_center_square [of 300 200] C1_crop_box_center_square [of 200 301]
  by (simp add: Let_def)

text \<open>
  Claim C3. For positive \<open>w\<close> and \<open>h\<close> with \<open>w \<noteq> h\<close>, the box has side \<open>min w h\<close>, lies
  inside the image (\<open>0 \<le> left\<close>, \<open>right \<le> w\<close>, \<open>0 \<le> top\<close>, \<open>bottom \<le> h\<close>), and is centred
  up to the rounding of the integer division: the margin before the box and the margin
  after it differ by at most one pixel on each axis.
\<close>

theorem C3_crop_box_bounds_centered:
  assumes "0 < w" and "0 < h" and "w \<noteq> h"
  shows "(let b = crop_box w h in
            box_width b = min w h \<and> box_height b = min w h
          \<and> 0 \<le> box_left b \<and> box_left b + min w h \<le> w
          \<and> 0 \<le> box_top b \<and> box_top b + min w h \<le> h
          \<and> box_right b = box_left b + min w h
          \<and> box_bottom b = box_top b + min w h
          \<and> \<bar>(w - box_right b) - box_left b\<bar> \<le> 1
          \<and> \<bar>(h - box_bottom b) - box_top b\<bar> \<le> 1)"
proof (cases "w > h")
  case True
  then show ?thesis using assms
    by (simp add: crop_box_def box_defs Let_def) presburger
next
  case False
  then show ?thesis using assms
    by (simp add: crop_box_def box_defs Let_def) presburger
qed

theorem C3_crop_box_bounds_centered_witness:
  "(0::int) < 301 \<and> (0::int) < 200 \<and> (301::int) \<noteq> 200
   \<and> crop_box 301 200 = (50, 0, 250, 200)
   \<and> \<bar>(301 - box_right (crop_box 301 200)) - box_left (crop_box 301 200)\<bar> \<le> 1"
  using C3_crop_box_bounds_centered [of 301 200]
  by (simp add: crop_box_def box_defs Let_def)

section \<open>Reading back what was written\<close>

lemma str_int_192: "str_int 192 = ''192''"
  by code_simp

lemma str_int_512: "str_int 512 = ''512''"
  by code_simp

lemma read_write_same: "write_file fs p b = Inr fs' \<Longrightarrow> read_file fs' p = Inr b"
  by (induction p arbitrary: fs fs')
     (auto split: node.splits option.splits sum.splits if_splits simp: update_conv')

lemma read_write_sibling:
  "write_file fs (d @ [x]) b = Inr fs' \<Longrightarrow> x \<noteq> y
     \<Longrightarrow> read_file fs' (d @ [y]) = read_file fs (d @ [y])"
  by (induction d arbitrary: fs fs')
     (auto split: node.splits option.splits sum.splits if_splits simp: update_conv')

lemma read_write_sibling2:
  "write_file fs [d, x] b = Inr fs' \<Longrightarrow> x \<noteq> y \<Longrightarrow> read_file fs' [d, y] = read_file fs [d, y]"
  using read_write_sibling [of fs "[d]" x b fs' y] by simp

lemma save_Inr:
  "save L fs p a = Inr fs' \<Longrightarrow> write_file fs p (encode L a) = Inr fs' \<and> writable a"
  by (auto simp: save_def split: sum.splits if_splits)

lemma read_save_same: "save L fs p a = Inr fs' \<Longrightarrow> read_file fs' p = Inr (encode L a)"
  by (auto dest!: save_Inr read_write_same)

lemma read_save_sibling2:
  "save L fs [d, x] a = Inr fs' \<Longrightarrow> x \<noteq> y \<Longrightarrow> read_file fs' [d, y] = read_file fs [d, y]"
  by (auto dest!: save_Inr read_write_sibling2)

section \<open>Sizes and modes of the images the scripts build\<close>

lemma square_thumbnail_size: "size_wh (square_thumbnail L img sz) = (sz, sz)"
  by (simp add: square_thumbnail_def resize_def Let_def split: prod.splits)

lemma square_thumbnail_mode:
  "mode (square_thumbnail L img sz)
     = (if mode img \<in> set [''RGBA'', ''P''] then ''RGB'' else mode img)"
  by (simp add: square_thumbnail_def resize_def crop_def convert_def Let_def split: prod.splits)

lemma create_square_thumbnail_Inr:
  assumes "create_square_thumbnail L fs i outp sz = Inr fs'"
  shows "\<exists>img. image_open L fs i = Inr img
           \<and> save L fs outp (SaveJPEG (square_thumbnail L img sz) JPEG_QUALITY) = Inr fs'"
  using assms by (auto simp: create_square_thumbnail_def split: sum.splits)

lemma composite_mode: "mode (composite_on_white L img sz) = ''RGB''"
  by (simp add: composite_on_white_def paste_def new_image_def Let_def)

lemma composite_size: "size_wh (composite_on_white L img sz) = (sz, sz)"
  by (simp add: composite_on_white_def paste_def new_image_def Let_def)

lemma resize_size: "size_wh (resize L img sz) = sz"
  by (simp add: resize_def)

lemma resize_mode: "mode (resize L img sz) = mode img"
  by (simp add: resize_def)

lemma ensure_rgba_mode: "mode (ensure_rgba L img) = ''RGBA''"
  by (simp add: ensure_rgba_def convert_def)

section \<open>Blending with white\<close>

text \<open>On the products of two bytes the library's division by shifts rounds to nearest.\<close>

lemma div255_round:
  assumes "0 \<le> x" "x \<le> 65025"
  shows "div255 x = (x + 127) div 255"
proof -
  define q where "q = (x + 127) div 255"
  define r where "r = (x + 127) mod 255"
  have x: "x + 127 = 255 * q + r" and r: "0 \<le> r" "r < 255"
    by (simp_all add: q_def r_def)
  from assms have q: "0 \<le> q" "q \<le> 255"
    unfolding q_def by (simp_all add: pos_imp_zdiv_nonneg_iff)
  have t: "x + 128 = 256 * q + (r + 1 - q)" using x by simp
  have d1: "(x + 128) div 256 = (if q \<le> r + 1 then q else q - 1)"
  proof (cases "q \<le> r + 1")
    case True
    with r q have "0 \<le> r + 1 - q" "r + 1 - q < 256" by simp_all
    with t have "(x + 128) div 256 = q" by (simp add: div_pos_pos_trivial)
    with True show ?thesis by simp
  next
    case False
    have "x + 128 = 256 * (q - 1) + (r + 257 - q)" using x by simp
    moreover from False r q have "0 \<le> r + 257 - q" "r + 257 - q < 256" by simp_all
    ultimately have "(x + 128) div 256 = q - 1" by (simp add: div_pos_pos_trivial)
    with False show ?thesis by simp
  qed
  have "((x + 128) div 256 + (x + 128)) div 256 = q"
  proof (cases "q \<le> r + 1")
    case True
    with d1 t have "(x + 128) div 256 + (x + 128) = 256 * q + (r + 1)" by simp
    moreover from r have "0 \<le> r + 1" "r + 1 < 256" by simp_all
    ultimately show ?thesis by (simp add: div_pos_pos_trivial)
  next
    case False
    with d1 t have "(x + 128) div 256 + (x + 128) = 256 * q + r" by simp
    moreover from r have "0 \<le> r" "r < 256" by simp_all
    ultimately show ?thesis by (simp add: div_pos_pos_trivial)
  qed
  then show ?thesis by (simp add: div255_def Let_def q_def)
qed

lemma blend8_white:
  assumes "0 \<le> a" "a \<le> 255" "0 \<le> v" "v \<le> 255"
  shows "blend8 a 255 v = (255 * (255 - a) + v * a + 127) div 255"
proof -
  have "0 \<le> (255 - a) * 255" "0 \<le> v * a" using assms by simp_all
  moreover have "v * a \<le> 255 * a" using assms by (simp add: mult_right_mono)
  ultimately have "0 \<le> 255 * (255 - a) + v * a" "255 * (255 - a) + v * a \<le> 65025"
    by simp_all
  from div255_round [OF this] show ?thesis by (simp add: blend8_def)
qed

lemma blend8_zero: "blend8 0 255 v = 255"
  by (simp add: blend8_def div255_def)

lemma blend8_opaque: "0 \<le> v \<Longrightarrow> v \<le> 255 \<Longrightarrow> blend8 255 255 v = v"
  using blend8_white [of 255 v] by simp

lemma blend8_shifts:
  "blend8 a 255 v
     = ((255 * (255 - a) + v * a + 128) div 256 + (255 * (255 - a) + v * a + 128)) div 256"
  by (simp add: blend8_def div255_def Let_def)

lemma composite_pix:
  assumes "0 \<le> x" "x < sz" "0 \<le> y" "y < sz"
    and "pix (resize L img (sz, sz)) (x, y) = [r, g, b, a]"
  shows "pix (composite_on_white L img sz) (x, y)
           = [blend8 a 255 r, blend8 a 255 g, blend8 a 255 b]"
  using assms
  by (simp add: composite_on_white_def paste_def new_image_def Let_def resize_size alpha_band_def)

section \<open>The frames of an ICO file\<close>

lemma favicon_sizes_sorted:
  "sort (remdups [(16, 16), (32, 32), (48 :: int, 48 :: int)]) = [(16, 16), (32, 32), (48, 48)]"
  by simp

text \<open>
  Called on an image of 16 by 16 with the sizes 16, 32 and 48, the writer keeps the size
  16 alone and takes that image for it, whatever images are appended.
\<close>

lemma ico_frames_16:
  assumes "size_wh im = (16, 16)"
  shows "ico_frames L im [(16, 16), (32, 32), (48, 48)] append_images = [im]"
  unfolding ico_frames_def Let_def favicon_sizes_sorted using assms by simp

text \<open>No frame comes from a size that is wider or higher than the image saved.\<close>

lemma ico_frames_length:
  "length (ico_frames L im sizes append_images)
     = length (filter (\<lambda>sz. fst sz \<le> fst (size_wh im) \<and> snd sz \<le> snd (size_wh im)
                            \<and> fst sz \<le> 256 \<and> snd sz \<le> 256)
                (sort (remdups sizes)))"
proof -
  have "length (concat (map (\<lambda>sz. if P sz then [] else [f sz]) xs))
          = length (filter (\<lambda>sz. \<not> P sz) xs)" for P :: "int \<times> int \<Rightarrow> bool" and f :: "int \<times> int \<Rightarrow> image" and xs
    by (induction xs) simp_all
  note len = this
  have one: "(case filter Q ps of provided_im # rest \<Rightarrow> [provided_im] | [] \<Rightarrow> [d])
               = [case filter Q ps of provided_im # rest \<Rightarrow> provided_im | [] \<Rightarrow> d]"
    for Q :: "image \<Rightarrow> bool" and ps d
    by (simp split: list.splits)
  show ?thesis
    unfolding ico_frames_def Let_def one
    by (simp add: len split: prod.splits) (auto intro!: arg_cong [where f = length] filter_cong)
qed

section \<open>The files the icon generator leaves\<close>

lemma generate_icons_steps:
  assumes "generate_icons L root = Inr (fs', out)"
  shows "\<exists>fs0 img0 fs1 fs2 fs3 fs4.
           mkdir_exist_ok root [''icons''] = Inr fs0
         \<and> image_open L fs0 [''images'', ''fcf-logo.png''] = Inr img0
         \<and> save L fs0 [''icons'', ''icon-192.png'']
               (SavePNG (resize L (ensure_rgba L img0) (192, 192))) = Inr fs1
         \<and> save L fs1 [''icons'', ''icon-512.png'']
               (SavePNG (resize L (ensure_rgba L img0) (512, 512))) = Inr fs2
         \<and> save L fs2 [''icons'', ''apple-touch-icon.png'']
               (SavePNG (composite_on_white L (ensure_rgba L img0) 180)) = Inr fs3
         \<and> save_ico L fs3 [''icons'', ''favicon.ico'']
               (composite_on_white L (ensure_rgba L img0) 16)
               [(16, 16), (32, 32), (48, 48)]
               [composite_on_white L (ensure_rgba L img0) 32,
                composite_on_white L (ensure_rgba L img0) 48] = Inr fs4
         \<and> save L fs4 [''icons'', ''favicon-32.png'']
               (SavePNG (resize L (ensure_rgba L img0) (32, 32))) = Inr fs'
         \<and> out = [Created ''icon-192.png'' [(192, 192)], Created ''icon-512.png'' [(512, 512)],
                  Created ''apple-touch-icon.png'' [(180, 180)],
                  Created ''favicon.ico'' [(16, 16), (32, 32), (48, 48)],
                  Created ''favicon-32.png'' [(32, 32)], Done]"
  using assms
  by (simp add: generate_icons_def Let_def str_int_192 str_int_512 del: mkdir_exist_ok.simps
        split: sum.splits prod.splits)

lemma generate_icons_files:
  assumes "generate_icons L root = Inr (fs', out)"
  shows "\<exists>fs0 img0.
           mkdir_exist_ok root [''icons''] = Inr fs0
         \<and> image_open L fs0 [''images'', ''fcf-logo.png''] = Inr img0
         \<and> icon_files L (ensure_rgba L img0) fs'"
proof -
  from generate_icons_steps [OF assms] obtain fs0 img0 fs1 fs2 fs3 fs4 where
    mk: "mkdir_exist_ok root [''icons''] = Inr fs0"
    and op: "image_open L fs0 [''images'', ''fcf-logo.png''] = Inr img0"
    and s1: "save L fs0 [''icons'', ''icon-192.png'']
               (SavePNG (resize L (ensure_rgba L img0) (192, 192))) = Inr fs1"
    and s2: "save L fs1 [''icons'', ''icon-512.png'']
               (SavePNG (resize L (ensure_rgba L img0) (512, 512))) = Inr fs2"
    and s3: "save L fs2 [''icons'', ''apple-touch-icon.png'']
               (SavePNG (composite_on_white L (ensure_rgba L img0) 180)) = Inr fs3"
    and s4': "save_ico L fs3 [''icons'', ''favicon.ico'']
               (composite_on_white L (ensure_rgba L img0) 16)
               [(16, 16), (32, 32), (48, 48)]
               [composite_on_white L (ensure_rgba L img0) 32,
                composite_on_white L (ensure_rgba L img0) 48] = Inr fs4"
    and s5: "save L fs4 [''icons'', ''favicon-32.png'']
               (SavePNG (resize L (ensure_rgba L img0) (32, 32))) = Inr fs'"
    by blast
  from s4' have s4: "save L fs3 [''icons'', ''favicon.ico'']
               (SaveICO [composite_on_white L (ensure_rgba L img0) 16]) = Inr fs4"
    by (simp add: save_ico_def ico_frames_16 composite_size)
  note same = read_save_same and sib = read_save_sibling2
  have r1: "read_file fs' [''icons'', ''icon-192.png'']
             = Inr (encode L (SavePNG (resize L (ensure_rgba L img0) (192, 192))))"
    using same [OF s1] sib [OF s2, of "''icon-192.png''"] sib [OF s3, of "''icon-192.png''"]
      sib [OF s4, of "''icon-192.png''"] sib [OF s5, of "''icon-192.png''"]
    by (simp del: read_file.simps)
  have r2: "read_file fs' [''icons'', ''icon-512.png'']
             = Inr (encode L (SavePNG (resize L (ensure_rgba L img0) (512, 512))))"
    using same [OF s2] sib [OF s3, of "''icon-512.png''"]
      sib [OF s4, of "''icon-512.png''"] sib [OF s5, of "''icon-512.png''"]
    by (simp del: read_file.simps)
  have r3: "read_file fs' [''icons'', ''apple-touch-icon.png'']
             = Inr (encode L (SavePNG (composite_on_white L (ensure_rgba L img0) 180)))"
    using same [OF s3] sib [OF s4, of "''apple-touch-icon.png''"]
      sib [OF s5, of "''apple-touch-icon.png''"]
    by (simp del: read_file.simps)
  have r4: "read_file fs' [''icons'', ''favicon.ico'']
             = Inr (encode L (SaveICO [composite_on_white L (ensure_rgba L img0) 16]))"
    using same [OF s4] sib [OF s5, of "''favicon.ico''"]
    by (simp del: read_file.simps)
  have r5: "read_file fs' [''icons'', ''favicon-32.png'']
             = Inr (encode L (SavePNG (resize L (ensure_rgba L img0) (32, 32))))"
    using same [OF s5] by (simp del: read_file.simps)
  from r1 r2 r3 r4 r5 have "icon_files L (ensure_rgba L img0) fs'"
    unfolding icon_files_def by blast
  with mk op show ?thesis by blast
qed

lemma generate_icons_out:
  assumes "generate_icons L root = Inr (fs', out)"
  shows "out = [Created ''icon-192.png'' [(192, 192)], Created ''icon-512.png'' [(512, 512)],
                Created ''apple-touch-icon.png'' [(180, 180)],
                Created ''favicon.ico'' [(16, 16), (32, 32), (48, 48)],
                Created ''favicon-32.png'' [(32, 32)], Done]"
  using generate_icons_steps [OF assms] by blast

lemma demo_icons_run:
  "generate_icons demo_pil demo_project = Inr (demo_project_icons, demo_icons_out)"
  by code_simp

lemma demo_half_icons_run:
  "generate_icons demo_pil demo_project_half = Inr (demo_project_half_icons, demo_icons_out)"
  by code_simp

lemma one_photo_run:
  "create_square_thumbnail demo_pil one_photo [''a.jpg''] [''thumbs'', ''a.jpg''] THUMBNAIL_SIZE
     = Inr one_photo_done"
  by code_simp

text \<open>
  Claim C4. The thumbnail that \<^verbatim>\<open>create_square_thumbnail\<close> writes is 160 by 160 whatever
  the input image is. The icon generator, at every logo with which it ends without
  error, builds images of 192, 512 and 180, the three favicon images of 16, 32 and 48,
  and one more of 32, and prints that \<^verbatim>\<open>favicon.ico\<close> has the sizes 16, 32 and 48. But the
  call of line 53 is made on the image of 16 by 16, and the ICO writer leaves out the
  sizes larger than the image it is called on: \<^verbatim>\<open>favicon.ico\<close> holds the frame of 16 by 16
  alone. The images that the five files under \<^verbatim>\<open>icons/\<close> hold have the sizes 192, 512, 180,
  16 and 32: the image of 48 by 48 is in no file, and that of 32 by 32 is not in
  \<^verbatim>\<open>favicon.ico\<close>.
\<close>

theorem C4_favicon_ico_holds_16_only:
  "size_wh (square_thumbnail L img THUMBNAIL_SIZE) = (160, 160)
   \<and> (create_square_thumbnail L fs input_path output_path THUMBNAIL_SIZE = Inr fs1 \<longrightarrow>
        (\<exists>img0. image_open L fs input_path = Inr img0
           \<and> read_file fs1 output_path
               = Inr (encode L (SaveJPEG (square_thumbnail L img0 THUMBNAIL_SIZE) JPEG_QUALITY))))
   \<and> (generate_icons L root = Inr (fs', out) \<longrightarrow>
        (\<exists>fs0 img0.
           mkdir_exist_ok root [''icons''] = Inr fs0
         \<and> image_open L fs0 [''images'', ''fcf-logo.png''] = Inr img0
         \<and> map size_wh (map (composite_on_white L (ensure_rgba L img0)) [16, 32, 48])
             = [(16, 16), (32, 32), (48, 48)]
         \<and> Created ''favicon.ico'' [(16, 16), (32, 32), (48, 48)] \<in> set out
         \<and> ico_frames L (composite_on_white L (ensure_rgba L img0) 16)
               [(16, 16), (32, 32), (48, 48)]
               [composite_on_white L (ensure_rgba L img0) 32,
                composite_on_white L (ensure_rgba L img0) 48]
             = [composite_on_white L (ensure_rgba L img0) 16]
         \<and> read_file fs' [''icons'', ''favicon.ico'']
             = Inr (encode L (SaveICO [composite_on_white L (ensure_rgba L img0) 16]))
         \<and> icon_files L (ensure_rgba L img0) fs'
         \<and> map size_wh
               (concat (map frames_of
                  [SavePNG (resize L (ensure_rgba L img0) (192, 192)),
                   SavePNG (resize L (ensure_rgba L img0) (512, 512)),
                   SavePNG (composite_on_white L (ensure_rgba L img0) 180),
                   SaveICO [composite_on_white L (ensure_rgba L img0) 16],
                   SavePNG (resize L (ensure_rgba L img0) (32, 32))]))
             = [(192, 192), (512, 512), (180, 180), (16, 16), (32, 32)]))"
proof (intro conjI impI)
  show "size_wh (square_thumbnail L img THUMBNAIL_SIZE) = (160, 160)"
    by (simp add: square_thumbnail_size THUMBNAIL_SIZE_def)
next
  assume "create_square_thumbnail L fs input_path output_path THUMBNAIL_SIZE = Inr fs1"
  from create_square_thumbnail_Inr [OF this]
  show "\<exists>img0. image_open L fs input_path = Inr img0
           \<and> read_file fs1 output_path
               = Inr (encode L (SaveJPEG (square_thumbnail L img0 THUMBNAIL_SIZE) JPEG_QUALITY))"
    by (auto dest: read_save_same)
next
  assume run: "generate_icons L root = Inr (fs', out)"
  from generate_icons_files [OF run] obtain fs0 img0 where
    mk: "mkdir_exist_ok root [''icons''] = Inr fs0"
    and op: "image_open L fs0 [''images'', ''fcf-logo.png''] = Inr img0"
    and files: "icon_files L (ensure_rgba L img0) fs'"
    by blast
  define logo where "logo = ensure_rgba L img0"
  have built: "map size_wh (map (composite_on_white L logo) [16, 32, 48])
                 = [(16, 16), (32, 32), (48, 48)]"
    by (simp add: composite_size)
  have printed: "Created ''favicon.ico'' [(16, 16), (32, 32), (48, 48)] \<in> set out"
    unfolding generate_icons_out [OF run] by simp
  have frames: "ico_frames L (composite_on_white L logo 16) [(16, 16), (32, 32), (48, 48)]
                  [composite_on_white L logo 32, composite_on_white L logo 48]
                = [composite_on_white L logo 16]"
    by (rule ico_frames_16) (simp add: composite_size)
  from files have ico: "read_file fs' [''icons'', ''favicon.ico'']
                          = Inr (encode L (SaveICO [composite_on_white L logo 16]))"
    unfolding icon_files_def logo_def by blast
  have held: "map size_wh
               (concat (map frames_of
                  [SavePNG (resize L logo (192, 192)), SavePNG (resize L logo (512, 512)),
                   SavePNG (composite_on_white L logo 180),
                   SaveICO [composite_on_white L logo 16],
                   SavePNG (resize L logo (32, 32))]))
             = [(192, 192), (512, 512), (180, 180), (16, 16), (32, 32)]"
    by (simp add: composite_size resize_size)
  from mk op built printed frames ico files held
  show "\<exists>fs0 img0.
           mkdir_exist_ok root [''icons''] = Inr fs0
         \<and> image_open L fs0 [''images'', ''fcf-logo.png''] = Inr img0
         \<and> map size_wh (map (composite_on_white L (ensure_rgba L img0)) [16, 32, 48])
             = [(16, 16), (32, 32), (48, 48)]
         \<and> Created ''favicon.ico'' [(16, 16), (32, 32), (48, 48)] \<in> set out
         \<and> ico_frames L (composite_on_white L (ensure_rgba L img0) 16)
               [(16, 16), (32, 32), (48, 48)]
               [composite_on_white L (ensure_rgba L img0) 32,
                composite_on_white L (ensure_rgba L img0) 48]
             = [composite_on_white L (ensure_rgba L img0) 16]
         \<and> read_file fs' [''icons'', ''favicon.ico'']
             = Inr (encode L (SaveICO [composite_on_white L (ensure_rgba L img0) 16]))
         \<and> icon_files L (ensure_rgba L img0) fs'
         \<and> map size_wh
               (concat (map frames_of
                  [SavePNG (resize L (ensure_rgba L img0) (192, 192)),
                   SavePNG (resize L (ensure_rgba L img0) (512, 512)),
                   SavePNG (composite_on_white L (ensure_rgba L img0) 180),
                   SaveICO [composite_on_white L (ensure_rgba L img0) 16],
                   SavePNG (resize L (ensure_rgba L img0) (32, 32))]))
             = [(192, 192), (512, 512), (180, 180), (16, 16), (32, 32)]"
    unfolding logo_def
    apply -
    apply (rule exI [of _ fs0], rule exI [of _ img0])
    apply (intro conjI)
    apply assumption+
    done
qed

theorem C4_favicon_ico_holds_16_only_witness:
  "create_square_thumbnail demo_pil one_photo [''a.jpg''] [''thumbs'', ''a.jpg''] THUMBNAIL_SIZE
     = Inr one_photo_done
   \<and> read_file one_photo_done [''thumbs'', ''a.jpg''] = Inr (''JPEG'', (160, 160), [9, 8, 7])
   \<and> generate_icons demo_pil demo_project = Inr (demo_project_icons, demo_icons_out)
   \<and> Created ''favicon.ico'' [(16, 16), (32, 32), (48, 48)] \<in> set demo_icons_out
   \<and> read_file demo_project_icons [''icons'', ''favicon.ico'']
       = Inr (''ICO'', (16, 16), [255, 255, 255])
   \<and> (\<exists>img0.
         image_open demo_pil
           (Dir [(''images'',
                   Dir [(''fcf-logo.png'', File (''RGBA'', (400, 300), [10, 20, 30, 0]))]),
                 (''scripts'', Dir []), (''icons'', Dir [])])
           [''images'', ''fcf-logo.png''] = Inr img0
       \<and> length (ico_frames demo_pil (composite_on_white demo_pil (ensure_rgba demo_pil img0) 16)
                   [(16, 16), (32, 32), (48, 48)]
                   [composite_on_white demo_pil (ensure_rgba demo_pil img0) 32,
                    composite_on_white demo_pil (ensure_rgba demo_pil img0) 48]) = 1
       \<and> icon_files demo_pil (ensure_rgba demo_pil img0) demo_project_icons)"
proof -
  have mk: "mkdir_exist_ok demo_project [''icons'']
              = Inr (Dir [(''images'',
                            Dir [(''fcf-logo.png'', File (''RGBA'', (400, 300), [10, 20, 30, 0]))]),
                          (''scripts'', Dir []), (''icons'', Dir [])])"
    by (simp add: demo_project_def)
  have pr: "Created ''favicon.ico'' [(16, 16), (32, 32), (48, 48)] \<in> set demo_icons_out"
    by (simp add: demo_icons_out_def)
  have rd: "read_file demo_project_icons [''icons'', ''favicon.ico'']
              = Inr (''ICO'', (16, 16), [255, 255, 255])"
    by (simp add: demo_project_icons_def)
  have th: "read_file one_photo_done [''thumbs'', ''a.jpg''] = Inr (''JPEG'', (160, 160), [9, 8, 7])"
    by (simp add: one_photo_done_def)
  from C4_favicon_ico_holds_16_only [of demo_pil la_image one_photo "[''a.jpg'']"
      "[''thumbs'', ''a.jpg'']" one_photo_done demo_project demo_project_icons demo_icons_out]
    one_photo_run demo_icons_run mk
  obtain img0 where
    "image_open demo_pil
           (Dir [(''images'',
                   Dir [(''fcf-logo.png'', File (''RGBA'', (400, 300), [10, 20, 30, 0]))]),
                 (''scripts'', Dir []), (''icons'', Dir [])])
           [''images'', ''fcf-logo.png''] = Inr img0"
    "ico_frames demo_pil (composite_on_white demo_pil (ensure_rgba demo_pil img0) 16)
                   [(16, 16), (32, 32), (48, 48)]
                   [composite_on_white demo_pil (ensure_rgba demo_pil img0) 32,
                    composite_on_white demo_pil (ensure_rgba demo_pil img0) 48]
       = [composite_on_white demo_pil (ensure_rgba demo_pil img0) 16]"
    "icon_files demo_pil (ensure_rgba demo_pil img0) demo_project_icons"
    by auto
  then have "\<exists>img0.
         image_open demo_pil
           (Dir [(''images'',
                   Dir [(''fcf-logo.png'', File (''RGBA'', (400, 300), [10, 20, 30, 0]))]),
                 (''scripts'', Dir []), (''icons'', Dir [])])
           [''images'', ''fcf-logo.png''] = Inr img0
       \<and> length (ico_frames demo_pil (composite_on_white demo_pil (ensure_rgba demo_pil img0) 16)
                   [(16, 16), (32, 32), (48, 48)]
                   [composite_on_white demo_pil (ensure_rgba demo_pil img0) 32,
                    composite_on_white demo_pil (ensure_rgba demo_pil img0) 48]) = 1
       \<and> icon_files demo_pil (ensure_rgba demo_pil img0) demo_project_icons"
    by (intro exI [of _ img0]) simp
  with one_photo_run th demo_icons_run pr rd show ?thesis by blast
qed

text \<open>
  Claim C5. The Apple touch icon and the three favicon images are built alike: the logo,
  in mode \<^verbatim>\<open>RGBA\<close>, is resized (still \<^verbatim>\<open>RGBA\<close>) and pasted, with itself as the mask, on a
  new white \<^verbatim>\<open>RGB\<close> canvas of the target size. The result has mode \<^verbatim>\<open>RGB\<close>, so no alpha
  band, and is what the PNG encoder is given for \<^verbatim>\<open>apple-touch-icon.png\<close> and for the frame
  of \<^verbatim>\<open>favicon.ico\<close>. Where the resized logo has the pixel \<open>[r, g, b, a]\<close> the result has
  three bands, each the value that the library's blend computes with shifts from white,
  the band of the logo and \<open>a\<close>. It is \<open>[255, 255, 255]\<close> where \<open>a = 0\<close>; and when the
  values are bytes, each band is the mean of white and the logo's band weighted by \<open>a\<close>
  and rounded to nearest, so it is the logo's colour where \<open>a = 255\<close>.
\<close>

theorem C5_flattened_on_white:
  assumes "generate_icons L root = Inr (fs', out)"
  shows "\<exists>fs0 img0.
           mkdir_exist_ok root [''icons''] = Inr fs0
         \<and> image_open L fs0 [''images'', ''fcf-logo.png''] = Inr img0
         \<and> mode (ensure_rgba L img0) = ''RGBA''
         \<and> read_file fs' [''icons'', ''apple-touch-icon.png'']
             = Inr (encode L (SavePNG (composite_on_white L (ensure_rgba L img0) 180)))
         \<and> read_file fs' [''icons'', ''favicon.ico'']
             = Inr (encode L (SaveICO [composite_on_white L (ensure_rgba L img0) 16]))
         \<and> (\<forall>sz.
               mode (resize L (ensure_rgba L img0) (sz, sz)) = ''RGBA''
             \<and> composite_on_white L (ensure_rgba L img0) sz
                 = paste (new_image ''RGB'' (sz, sz) [255, 255, 255])
                     (resize L (ensure_rgba L img0) (sz, sz)) (0, 0)
                     (resize L (ensure_rgba L img0) (sz, sz))
             \<and> mode (composite_on_white L (ensure_rgba L img0) sz) = ''RGB''
             \<and> size_wh (composite_on_white L (ensure_rgba L img0) sz) = (sz, sz)
             \<and> (\<forall>x y r g b a.
                   0 \<le> x \<and> x < sz \<and> 0 \<le> y \<and> y < sz
                   \<and> pix (resize L (ensure_rgba L img0) (sz, sz)) (x, y) = [r, g, b, a]
                   \<longrightarrow> pix (composite_on_white L (ensure_rgba L img0) sz) (x, y)
                         = map (\<lambda>v. ((255 * (255 - a) + v * a + 128) div 256
                                       + (255 * (255 - a) + v * a + 128)) div 256) [r, g, b]
                       \<and> (a = 0 \<longrightarrow>
                            pix (composite_on_white L (ensure_rgba L img0) sz) (x, y)
                              = [255, 255, 255])
                       \<and> (0 \<le> a \<and> a \<le> 255 \<and> (\<forall>v \<in> set [r, g, b]. 0 \<le> v \<and> v \<le> 255) \<longrightarrow>
                            pix (composite_on_white L (ensure_rgba L img0) sz) (x, y)
                              = map (\<lambda>v. (255 * (255 - a) + v * a + 127) div 255) [r, g, b]
                          \<and> (a = 255 \<longrightarrow>
                               pix (composite_on_white L (ensure_rgba L img0) sz) (x, y)
                                 = [r, g, b]))))"
proof -
  from generate_icons_files [OF assms] obtain fs0 img0 where
    mk: "mkdir_exist_ok root [''icons''] = Inr fs0"
    and op: "image_open L fs0 [''images'', ''fcf-logo.png''] = Inr img0"
    and files: "icon_files L (ensure_rgba L img0) fs'"
    by blast
  define logo where "logo = ensure_rgba L img0"
  have m: "mode logo = ''RGBA''"
    by (simp add: logo_def ensure_rgba_mode)
  have px: "pix (composite_on_white L logo sz) (x, y)
              = map (\<lambda>v. ((255 * (255 - a) + v * a + 128) div 256
                            + (255 * (255 - a) + v * a + 128)) div 256) [r, g, b]
            \<and> (a = 0 \<longrightarrow> pix (composite_on_white L logo sz) (x, y) = [255, 255, 255])
            \<and> (0 \<le> a \<and> a \<le> 255 \<and> (\<forall>v \<in> set [r, g, b]. 0 \<le> v \<and> v \<le> 255) \<longrightarrow>
                 pix (composite_on_white L logo sz) (x, y)
                   = map (\<lambda>v. (255 * (255 - a) + v * a + 127) div 255) [r, g, b]
               \<and> (a = 255 \<longrightarrow> pix (composite_on_white L logo sz) (x, y) = [r, g, b]))"
    if h: "0 \<le> x \<and> x < sz \<and> 0 \<le> y \<and> y < sz \<and> pix (resize L logo (sz, sz)) (x, y) = [r, g, b, a]"
    for sz x y r g b a
  proof -
    from h composite_pix [of x sz y L logo r g b a]
    have p: "pix (composite_on_white L logo sz) (x, y)
               = [blend8 a 255 r, blend8 a 255 g, blend8 a 255 b]"
      by simp
    have c1: "pix (composite_on_white L logo sz) (x, y)
              = map (\<lambda>v. ((255 * (255 - a) + v * a + 128) div 256
                            + (255 * (255 - a) + v * a + 128)) div 256) [r, g, b]"
      unfolding p by (simp add: blend8_shifts)
    have c2: "a = 0 \<longrightarrow> pix (composite_on_white L logo sz) (x, y) = [255, 255, 255]"
      unfolding p by (simp add: blend8_zero)
    have c3: "pix (composite_on_white L logo sz) (x, y)
                   = map (\<lambda>v. (255 * (255 - a) + v * a + 127) div 255) [r, g, b]
               \<and> (a = 255 \<longrightarrow> pix (composite_on_white L logo sz) (x, y) = [r, g, b])"
      if b: "0 \<le> a \<and> a \<le> 255 \<and> (\<forall>v \<in> set [r, g, b]. 0 \<le> v \<and> v \<le> 255)"
      unfolding p using b by (simp add: blend8_white blend8_opaque)
    from c1 c2 c3 show ?thesis by blast
  qed
  have each: "mode (resize L logo (sz, sz)) = ''RGBA''
             \<and> composite_on_white L logo sz
                 = paste (new_image ''RGB'' (sz, sz) [255, 255, 255])
                     (resize L logo (sz, sz)) (0, 0) (resize L logo (sz, sz))
             \<and> mode (composite_on_white L logo sz) = ''RGB''
             \<and> size_wh (composite_on_white L logo sz) = (sz, sz)" for sz
    by (simp add: resize_mode m composite_mode composite_size)
       (simp add: composite_on_white_def Let_def)
  from files have
    "read_file fs' [''icons'', ''apple-touch-icon.png'']
             = Inr (encode L (SavePNG (composite_on_white L logo 180)))"
    "read_file fs' [''icons'', ''favicon.ico'']
             = Inr (encode L (SaveICO [composite_on_white L logo 16]))"
    unfolding icon_files_def logo_def by blast+
  with mk op m each px show ?thesis
    unfolding logo_def by blast
qed

theorem C5_flattened_on_white_witness:
  "generate_icons demo_pil demo_project_half = Inr (demo_project_half_icons, demo_icons_out)
   \<and> pix (resize demo_pil demo_half_logo (180, 180)) (0, 0) = [9, 19, 29, 128]
   \<and> pix (composite_on_white demo_pil demo_half_logo 180) (0, 0) = [132, 137, 142]
   \<and> read_file demo_project_half_icons [''icons'', ''apple-touch-icon.png'']
       = Inr (''PNG'', (180, 180), [132, 137, 142])
   \<and> generate_icons demo_pil demo_project = Inr (demo_project_icons, demo_icons_out)
   \<and> pix (resize demo_pil demo_logo (180, 180)) (0, 0) = [0, 0, 0, 0]
   \<and> pix (composite_on_white demo_pil demo_logo 180) (0, 0) = [255, 255, 255]
   \<and> read_file demo_project_icons [''icons'', ''apple-touch-icon.png'']
       = Inr (''PNG'', (180, 180), [255, 255, 255])"
proof -
  have mk1: "mkdir_exist_ok demo_project_half [''icons''] = Inr fs0 \<Longrightarrow>
               image_open demo_pil fs0 [''images'', ''fcf-logo.png''] = Inr img0 \<Longrightarrow>
               ensure_rgba demo_pil img0 = demo_half_logo" for fs0 img0
    by (auto simp: demo_project_half_def image_open_def demo_pil_def demo_half_logo_def
          ensure_rgba_def)
  have mk2: "mkdir_exist_ok demo_project [''icons''] = Inr fs0 \<Longrightarrow>
               image_open demo_pil fs0 [''images'', ''fcf-logo.png''] = Inr img0 \<Longrightarrow>
               ensure_rgba demo_pil img0 = demo_logo" for fs0 img0
    by (auto simp: demo_project_def image_open_def demo_pil_def demo_logo_def ensure_rgba_def)
  have rs1: "pix (resize demo_pil demo_half_logo (180, 180)) (0, 0) = [9, 19, 29, 128]"
    by (simp add: resize_def demo_pil_def demo_resample_def demo_half_logo_def div255_def)
  have rs2: "pix (resize demo_pil demo_logo (180, 180)) (0, 0) = [0, 0, 0, 0]"
    by (simp add: resize_def demo_pil_def demo_resample_def demo_logo_def div255_def)
  from C5_flattened_on_white [OF demo_half_icons_run] obtain fs0 img0 where
    "mkdir_exist_ok demo_project_half [''icons''] = Inr fs0"
    "image_open demo_pil fs0 [''images'', ''fcf-logo.png''] = Inr img0"
    and px: "\<forall>x y r g b a.
               0 \<le> x \<and> x < 180 \<and> 0 \<le> y \<and> y < 180
               \<and> pix (resize demo_pil (ensure_rgba demo_pil img0) (180, 180)) (x, y) = [r, g, b, a]
               \<longrightarrow> (0 \<le> a \<and> a \<le> 255 \<and> (\<forall>v \<in> set [r, g, b]. 0 \<le> v \<and> v \<le> 255) \<longrightarrow>
                      pix (composite_on_white demo_pil (ensure_rgba demo_pil img0) 180) (x, y)
                        = map (\<lambda>v. (255 * (255 - a) + v * a + 127) div 255) [r, g, b])"
    by blast
  with mk1 have "ensure_rgba demo_pil img0 = demo_half_logo" by blast
  with px rs1 have half: "pix (composite_on_white demo_pil demo_half_logo 180) (0, 0)
                            = [132, 137, 142]"
    by simp
  from C5_flattened_on_white [OF demo_icons_run] obtain fs1 img1 where
    "mkdir_exist_ok demo_project [''icons''] = Inr fs1"
    "image_open demo_pil fs1 [''images'', ''fcf-logo.png''] = Inr img1"
    and px0: "\<forall>x y r g b a.
               0 \<le> x \<and> x < 180 \<and> 0 \<le> y \<and> y < 180
               \<and> pix (resize demo_pil (ensure_rgba demo_pil img1) (180, 180)) (x, y) = [r, g, b, a]
               \<longrightarrow> (a = 0 \<longrightarrow>
                      pix (composite_on_white demo_pil (ensure_rgba demo_pil img1) 180) (x, y)
                        = [255, 255, 255])"
    by blast
  with mk2 have "ensure_rgba demo_pil img1 = demo_logo" by blast
  with px0 rs2 have none: "pix (composite_on_white demo_pil demo_logo 180) (0, 0)
                             = [255, 255, 255]"
    by simp
  have f1: "read_file demo_project_half_icons [''icons'', ''apple-touch-icon.png'']
              = Inr (''PNG'', (180, 180), [132, 137, 142])"
    by (simp add: demo_project_half_icons_def)
  have f2: "read_file demo_project_icons [''icons'', ''apple-touch-icon.png'']
              = Inr (''PNG'', (180, 180), [255, 255, 255])"
    by (simp add: demo_project_icons_def)
  from demo_half_icons_run rs1 half f1 demo_icons_run rs2 none f2 show ?thesis by blast
qed

text \<open>
  Claim C2, at a greyscale image with an alpha band (mode \<^verbatim>\<open>LA\<close>, as a PNG file can
  decode to): the mode test of line 18 lets it through unconverted, the thumbnail still
  has mode \<^verbatim>\<open>LA\<close>, and the JPEG encoder refuses it, which ends the run of the waypoint.
\<close>

theorem C2_alpha_mode_not_converted:
  "image_open demo_pil la_waypoint [''g.png''] = Inr la_image
   \<and> mode (square_thumbnail demo_pil la_image THUMBNAIL_SIZE) = ''LA''
   \<and> process_waypoint demo_pil ''W1'' la_waypoint = Inl OSError"
proof (intro conjI)
  show op: "image_open demo_pil la_waypoint [''g.png''] = Inr la_image"
    by (simp add: image_open_def la_waypoint_def demo_pil_def la_image_def)
  show "mode (square_thumbnail demo_pil la_image THUMBNAIL_SIZE) = ''LA''"
    by (simp add: square_thumbnail_mode la_image_def)
  have names: "sort [''g.png'', ''thumbs''] = [''g.png'', ''thumbs'']"
    by simp
  have sel: "lower (suffix ''g.png'') = ''.png''" "stem ''g.png'' = ''g''"
    by code_simp+
  have mk: "mkdir_exist_ok la_waypoint [''thumbs'']
              = Inr (Dir [(''g.png'', File (''LA'', (300, 200), [7, 128])), (''thumbs'', Dir [])])"
    by (simp add: la_waypoint_def)
  have op': "image_open demo_pil
               (Dir [(''g.png'', File (''LA'', (300, 200), [7, 128])), (''thumbs'', Dir [])])
               [''g.png''] = Inr la_image"
    by (simp add: image_open_def demo_pil_def la_image_def)
  have cr: "create_square_thumbnail demo_pil
              (Dir [(''g.png'', File (''LA'', (300, 200), [7, 128])), (''thumbs'', Dir [])])
              [''g.png''] [''thumbs'', ''g.jpg''] THUMBNAIL_SIZE = Inl OSError"
    by (simp add: create_square_thumbnail_def op' save_def square_thumbnail_mode la_image_def
          JPEG_RAWMODE_def)
  show "process_waypoint demo_pil ''W1'' la_waypoint = Inl OSError"
    by (simp add: process_waypoint_def mk sorted_iterdir_def names is_dir_def sel
          IMAGE_SUFFIXES_def cr del: mkdir_exist_ok.simps)
qed

lemma update_absent: "map_of al k = None \<Longrightarrow> AList.update k v al = al @ [(k, v)]"
  by (induction al) (auto split: if_splits)

lemma is_dir_Dir1:
  "is_dir (Dir es) [n] = (case map_of es n of Some (Dir d) \<Rightarrow> True | _ \<Rightarrow> False)"
  by (simp add: is_dir_def split: option.splits node.splits)

lemma write_file_thumbs:
  assumes "map_of es d = Some (Dir ths)"
  shows "write_file (Dir es) [d, t] b =
           (case map_of ths t of
              Some (Dir x) \<Rightarrow> Inl IsADirectoryError
            | _ \<Rightarrow> Inr (Dir (AList.update d (Dir (AList.update t (File b) ths)) es)))"
  using assms by (auto simp: update_absent split: option.splits node.splits)

lemma image_open_Dir1:
  "image_open L (Dir es) [n] =
     (case map_of es n of
        None \<Rightarrow> Inl FileNotFoundError
      | Some (Dir d) \<Rightarrow> Inl IsADirectoryError
      | Some (File b) \<Rightarrow>
          (case decode L b of None \<Rightarrow> Inl UnidentifiedImageError | Some img \<Rightarrow> Inr img))"
  by (simp add: image_open_def split: option.splits node.splits)

lemma images_loop_thumbs_loop:
  assumes "map_of es ''thumbs'' = Some (Dir ths0)"
  shows "images_loop L names (Dir (AList.update ''thumbs'' (Dir ths) es), out) =
           (case thumbs_loop L es names ths of
              Inl e \<Rightarrow> Inl e
            | Inr ths' \<Rightarrow>
                Inr (Dir (AList.update ''thumbs'' (Dir ths') es),
                     out @ map thumb_line (filter (selected es) names)))"
proof (induction names arbitrary: ths out)
  case Nil
  show ?case by simp
next
  case (Cons n names)
  have th: "map_of (AList.update ''thumbs'' (Dir ths) es) ''thumbs'' = Some (Dir ths)"
    by (simp add: update_conv')
  show ?case
  proof (cases "n = ''thumbs''")
    case True
    with assms have "\<not> selected es n"
      by (simp add: selected_def)
    with True show ?thesis
      using assms Cons.IH [of ths out]
      by (simp add: is_dir_Dir1 update_conv' split: sum.splits)
  next
    case False
    then have mo: "map_of (AList.update ''thumbs'' (Dir ths) es) n = map_of es n"
      by (simp add: update_conv')
    show ?thesis
    proof (cases "map_of es n")
      case None
      then have "\<not> selected es n"
        by (simp add: selected_def)
      with None show ?thesis
        using mo Cons.IH [of ths out]
        by (simp add: is_dir_Dir1 create_square_thumbnail_def image_open_Dir1
              split: sum.splits)
    next
      case (Some c)
      show ?thesis
      proof (cases c)
        case (Dir d)
        with Some have "\<not> selected es n"
          by (simp add: selected_def)
        with Dir show ?thesis
          using Some mo Cons.IH [of ths out]
          by (simp add: is_dir_Dir1 split: sum.splits)
      next
        case (File b)
        show ?thesis
        proof (cases "lower (suffix n) \<in> set IMAGE_SUFFIXES")
          case False
          with Some File have "\<not> selected es n"
            by (simp add: selected_def)
          with False show ?thesis
            using Some File mo Cons.IH [of ths out]
            by (simp add: is_dir_Dir1 split: sum.splits)
        next
          case True
          with Some File have sel: "selected es n"
            by (simp add: selected_def)
          show ?thesis
          proof (cases "decode L b")
            case None
            then show ?thesis
              using Some File mo True
              by (simp add: is_dir_Dir1 create_square_thumbnail_def image_open_Dir1)
          next
            case (Some img)
            have wr: "write_file (Dir (AList.update ''thumbs'' (Dir ths) es))
                        [''thumbs'', stem n @ ''.jpg''] v =
                      (case map_of ths (stem n @ ''.jpg'') of
                         Some (Dir x) \<Rightarrow> Inl IsADirectoryError
                       | _ \<Rightarrow> Inr (Dir (AList.update ''thumbs''
                                (Dir (AList.update (stem n @ ''.jpg'') (File v) ths)) es)))" for v
              using write_file_thumbs [OF th, of "stem n @ ''.jpg''" v]
              by (simp del: write_file.simps split: option.splits node.splits)
            show ?thesis
              using \<open>map_of es n = Some c\<close> File mo True Some sel
                Cons.IH [of "AList.update (stem n @ ''.jpg'')
                               (File (encode L (thumbnail_args L img))) ths"
                            "out @ [ThumbLine n (stem n @ ''.jpg'')]"]
              by (simp add: is_dir_Dir1 create_square_thumbnail_def image_open_Dir1 save_def wr
                    thumb_line_def thumbnail_args_def Let_def
                    del: write_file.simps
                    split: option.splits node.splits sum.splits)
          qed
        qed
      qed
    qed
  qed
qed

lemma mkdir_thumbs:
  "mkdir_exist_ok (Dir es) [''thumbs''] =
     (case map_of es ''thumbs'' of
        Some (File b) \<Rightarrow> Inl FileExistsError
      | _ \<Rightarrow> Inr (Dir (AList.update ''thumbs'' (Dir (thumbs_entries es)) es)))"
  by (simp add: thumbs_entries_def update_absent update_triv split: option.splits node.splits)

lemma thumbs_loop_skip:
  "\<forall>n \<in> set names. map_of es n \<noteq> None
     \<Longrightarrow> thumbs_loop L es names ths = thumbs_loop L es (filter (selected es) names) ths"
  by (induction names arbitrary: ths)
     (auto simp: selected_def split: option.splits node.splits)

lemma thumbs_loop_cong:
  "\<forall>n \<in> set names. map_of es n = map_of es' n
     \<Longrightarrow> thumbs_loop L es names ths = thumbs_loop L es' names ths"
  by (induction names arbitrary: ths)
     (auto split: option.splits node.splits)

lemma selected_with_thumbs:
  "selected (AList.update ''thumbs'' (Dir t) es) n = (n \<noteq> ''thumbs'' \<and> selected es n)"
  by (simp add: selected_def update_conv')

lemma selected_not_thumbs:
  "map_of es ''thumbs'' = None \<or> map_of es ''thumbs'' = Some (Dir t) \<Longrightarrow> \<not> selected es ''thumbs''"
  by (auto simp: selected_def)

lemma inputs_with_thumbs:
  assumes "\<not> selected es ''thumbs''"
  shows "filter (selected (AList.update ''thumbs'' (Dir t) es))
           (sort (map fst (AList.update ''thumbs'' (Dir t) es))) = inputs es"
proof -
  have eq: "selected (AList.update ''thumbs'' (Dir t) es) = selected es"
    using assms by (auto simp: selected_with_thumbs fun_eq_iff)
  show ?thesis
    using assms by (simp add: eq inputs_def filter_sort update_keys)
qed

lemma process_waypoint_char:
  "process_waypoint L w (Dir es) =
     (case map_of es ''thumbs'' of
        Some (File b) \<Rightarrow> Inl FileExistsError
      | _ \<Rightarrow>
          (case thumbs_loop L es (inputs es) (thumbs_entries es) of
             Inl e \<Rightarrow> Inl e
           | Inr ths' \<Rightarrow>
               Inr (Dir (AList.update ''thumbs'' (Dir ths') es),
                    map thumb_line (inputs es) @ [ProcessedWaypoint w (jpg_count ths')])))"
proof (cases "\<exists>b. map_of es ''thumbs'' = Some (File b)")
  case True
  then show ?thesis
    by (auto simp: process_waypoint_def mkdir_thumbs simp del: mkdir_exist_ok.simps)
next
  case False
  define ths where "ths = thumbs_entries es"
  define es1 where "es1 = AList.update ''thumbs'' (Dir ths) es"
  from False have nosel: "\<not> selected es ''thumbs''"
    by (auto simp: selected_def split: option.splits node.splits)
  from False have mk: "mkdir_exist_ok (Dir es) [''thumbs''] = Inr (Dir es1)"
    by (auto simp: mkdir_thumbs es1_def ths_def simp del: mkdir_exist_ok.simps
          split: option.splits node.splits)
  have th1: "map_of es1 ''thumbs'' = Some (Dir ths)"
    by (simp add: es1_def update_conv')
  have names: "sorted_iterdir (Dir es1) [] = Inr (sort (map fst es1))"
    by (simp add: sorted_iterdir_def)
  have same: "AList.update ''thumbs'' (Dir x) es1 = AList.update ''thumbs'' (Dir x) es" for x
    by (simp add: es1_def)
  have es1_self: "AList.update ''thumbs'' (Dir ths) es1 = es1"
    by (simp add: es1_def)
  have loop: "images_loop L (sort (map fst es1)) (Dir es1, []) =
           (case thumbs_loop L es1 (sort (map fst es1)) ths of
              Inl e \<Rightarrow> Inl e
            | Inr ths' \<Rightarrow>
                Inr (Dir (AList.update ''thumbs'' (Dir ths') es),
                     map thumb_line (filter (selected es1) (sort (map fst es1)))))"
    using images_loop_thumbs_loop [OF th1, of L "sort (map fst es1)" ths "[]"]
    unfolding es1_self by (simp add: same split: sum.splits)
  have keys: "\<forall>n \<in> set (sort (map fst es1)). map_of es1 n \<noteq> None"
    by (auto simp: map_of_eq_None_iff)
  have inp: "filter (selected es1) (sort (map fst es1)) = inputs es"
    unfolding es1_def by (rule inputs_with_thumbs [OF nosel])
  have "thumbs_loop L es1 (sort (map fst es1)) ths = thumbs_loop L es1 (inputs es) ths"
    using thumbs_loop_skip [OF keys, of L ths] by (simp add: inp)
  also have "\<dots> = thumbs_loop L es (inputs es) ths"
  proof (rule thumbs_loop_cong, rule ballI)
    fix n assume "n \<in> set (inputs es)"
    then have "selected es n" by (simp add: inputs_def)
    with nosel have "n \<noteq> ''thumbs''" by auto
    then show "map_of es1 n = map_of es n"
      by (simp add: es1_def update_conv')
  qed
  finally have tl: "thumbs_loop L es1 (sort (map fst es1)) ths = thumbs_loop L es (inputs es) ths" .
  have cnt: "glob_jpg_count (Dir (AList.update ''thumbs'' (Dir x) es)) [''thumbs''] = jpg_count x" for x
    by (simp add: glob_jpg_count_def jpg_count_def update_conv')
  show ?thesis
    using False unfolding ths_def [symmetric]
    by (simp add: process_waypoint_def mk names loop tl inp cnt
          del: mkdir_exist_ok.simps split: option.splits node.splits sum.splits)
qed

section \<open>What the loop leaves in the thumbs directory\<close>

lemma update_commute:
  "k \<in> fst ` set al \<Longrightarrow> k \<noteq> k'
     \<Longrightarrow> AList.update k' v' (AList.update k v al) = AList.update k v (AList.update k' v' al)"
  by (induction al) auto

lemma thumbs_loop_step:
  assumes "thumbs_loop L es (n # names) ths = Inr ths'"
  shows "\<exists>ths1. thumbs_loop L es names ths1 = Inr ths'
           \<and> (ths1 = ths \<or> (\<exists>v. ths1 = AList.update (stem n @ ''.jpg'') (File v) ths))"
  using assms by (auto split: option.splits node.splits if_splits)

lemma thumbs_loop_file_stays:
  "thumbs_loop L es names ths = Inr ths' \<Longrightarrow> map_of ths t = Some (File v)
     \<Longrightarrow> \<exists>v'. map_of ths' t = Some (File v')"
proof (induction names arbitrary: ths v)
  case Nil
  then show ?case by simp
next
  case (Cons n names)
  from thumbs_loop_step [OF Cons.prems(1)] obtain ths1 where
    rest: "thumbs_loop L es names ths1 = Inr ths'"
    and ths1: "ths1 = ths \<or> (\<exists>v. ths1 = AList.update (stem n @ ''.jpg'') (File v) ths)"
    by blast
  from ths1 Cons.prems(2) have "\<exists>v1. map_of ths1 t = Some (File v1)"
    by (auto simp: update_conv')
  then obtain v1 where "map_of ths1 t = Some (File v1)" by blast
  from Cons.IH [OF rest this] show ?case .
qed

lemma writers_Cons:
  "writers es (n # names) t =
     (if selected es n \<and> stem n @ ''.jpg'' = t then n # writers es names t
      else writers es names t)"
  by (simp add: writers_def)

lemma thumbs_loop_untouched:
  "thumbs_loop L es names ths = Inr ths' \<Longrightarrow> writers es names t = []
     \<Longrightarrow> map_of ths' t = map_of ths t"
proof (induction names arbitrary: ths)
  case Nil
  then show ?case by simp
next
  case (Cons n names)
  from Cons.prems(2) have none: "writers es names t = []"
    and here: "\<not> (selected es n \<and> stem n @ ''.jpg'' = t)"
    by (auto simp: writers_Cons split: if_splits)
  show ?case
  proof (cases "selected es n")
    case False
    with Cons.prems(1) have "thumbs_loop L es names ths = Inr ths'"
      by (auto simp: selected_def split: option.splits node.splits if_splits)
    from Cons.IH [OF this none] show ?thesis .
  next
    case True
    with here have ne: "stem n @ ''.jpg'' \<noteq> t" by simp
    from thumbs_loop_step [OF Cons.prems(1)] obtain ths1 where
      rest: "thumbs_loop L es names ths1 = Inr ths'"
      and ths1: "ths1 = ths \<or> (\<exists>v. ths1 = AList.update (stem n @ ''.jpg'') (File v) ths)"
      by blast
    from ths1 ne have "map_of ths1 t = map_of ths t"
      by (auto simp: update_conv')
    with Cons.IH [OF rest none] show ?thesis by simp
  qed
qed

lemma thumbs_loop_absorb:
  "map_of ths t = Some (File v0) \<Longrightarrow> writers es names t \<noteq> []
     \<Longrightarrow> thumbs_loop L es names (AList.update t (File v) ths) = thumbs_loop L es names ths"
proof (induction names arbitrary: ths v0)
  case Nil
  then show ?case by (simp add: writers_def)
next
  case (Cons n names)
  show ?case
  proof (cases "selected es n")
    case False
    with Cons.prems have w: "writers es names t \<noteq> []"
      by (simp add: writers_Cons)
    from False Cons.IH [OF Cons.prems(1) w] show ?thesis
      by (auto simp: selected_def split: option.splits node.splits)
  next
    case True
    then obtain b where b: "map_of es n = Some (File b)"
      and sfx: "lower (suffix n) \<in> set IMAGE_SUFFIXES"
      by (auto simp: selected_def split: option.splits node.splits)
    show ?thesis
    proof (cases "decode L b")
      case None
      with b sfx show ?thesis by simp
    next
      case (Some img)
      show ?thesis
      proof (cases "stem n @ ''.jpg'' = t")
        case True
        with b sfx Some Cons.prems(1) show ?thesis
          by (simp add: update_conv')
      next
        case False
        with True Cons.prems have w: "writers es names t \<noteq> []"
          by (simp add: writers_Cons)
        from Cons.prems(1) have mem: "t \<in> fst ` set ths"
          by (metis domI dom_map_of_conv_image_fst)
        let ?new = "File (encode L (thumbnail_args L img))"
        have still: "map_of (AList.update (stem n @ ''.jpg'') ?new ths) t = Some (File v0)"
          using False Cons.prems(1) by (simp add: update_conv')
        have sw: "AList.update (stem n @ ''.jpg'') ?new (AList.update t (File v) ths)
                    = AList.update t (File v) (AList.update (stem n @ ''.jpg'') ?new ths)"
          using update_commute [OF mem, of "stem n @ ''.jpg''"] False by auto
        from False b sfx Some Cons.IH [OF still w] show ?thesis
          by (simp add: update_conv' sw split: option.splits node.splits)
      qed
    qed
  qed
qed

lemma thumbs_loop_idem:
  "thumbs_loop L es names ths = Inr ths' \<Longrightarrow> thumbs_loop L es names ths' = Inr ths'"
proof (induction names arbitrary: ths)
  case Nil
  then show ?case by simp
next
  case (Cons n names)
  show ?case
  proof (cases "selected es n")
    case False
    with Cons.prems have "thumbs_loop L es names ths = Inr ths'"
      by (auto simp: selected_def split: option.splits node.splits if_splits)
    from Cons.IH [OF this] False show ?thesis
      using Cons.prems
      by (auto simp: selected_def split: option.splits node.splits if_splits)
  next
    case True
    then obtain b where b: "map_of es n = Some (File b)"
      and sfx: "lower (suffix n) \<in> set IMAGE_SUFFIXES"
      by (auto simp: selected_def split: option.splits node.splits)
    from Cons.prems b sfx obtain img where img: "decode L b = Some img"
      by (auto split: option.splits)
    let ?t = "stem n @ ''.jpg''"
    let ?new = "File (encode L (thumbnail_args L img))"
    from Cons.prems b sfx img have wr: "writable (thumbnail_args L img)"
      and rest: "thumbs_loop L es names (AList.update ?t ?new ths) = Inr ths'"
      by (auto split: option.splits node.splits if_splits)
    have "map_of (AList.update ?t ?new ths) ?t = Some ?new"
      by (simp add: update_conv')
    from thumbs_loop_file_stays [OF rest this] obtain v' where
      v': "map_of ths' ?t = Some (File v')" by blast
    have ih: "thumbs_loop L es names ths' = Inr ths'"
      by (rule Cons.IH [OF rest])
    have "thumbs_loop L es names (AList.update ?t ?new ths') = Inr ths'"
    proof (cases "writers es names ?t = []")
      case True
      from thumbs_loop_untouched [OF rest True] have "map_of ths' ?t = Some ?new"
        by (simp add: update_conv')
      then have "AList.update ?t ?new ths' = ths'"
        by (rule update_triv)
      with ih show ?thesis by simp
    next
      case False
      from thumbs_loop_absorb [OF v' False] ih show ?thesis by simp
    qed
    with b sfx img wr v' show ?thesis by simp
  qed
qed

text \<open>The last writer of a target determines what it holds at the end.\<close>

lemma thumbs_loop_last_writer:
  "thumbs_loop L es names ths = Inr ths' \<Longrightarrow> writers es names t \<noteq> []
     \<Longrightarrow> \<exists>b img. map_of es (last (writers es names t)) = Some (File b)
           \<and> decode L b = Some img
           \<and> map_of ths' t = Some (File (encode L (thumbnail_args L img)))"
proof (induction names arbitrary: ths)
  case Nil
  then show ?case by (simp add: writers_def)
next
  case (Cons n names)
  show ?case
  proof (cases "writers es names t = []")
    case False
    from Cons.prems(1) obtain ths1 where "thumbs_loop L es names ths1 = Inr ths'"
      by (auto split: option.splits node.splits if_splits)
    from Cons.IH [OF this False] False show ?thesis
      by (simp add: writers_Cons)
  next
    case True
    with Cons.prems(2) have sel: "selected es n" and t: "stem n @ ''.jpg'' = t"
      and lw: "last (writers es (n # names) t) = n"
      by (auto simp: writers_Cons split: if_splits)
    from sel obtain b where b: "map_of es n = Some (File b)"
      and sfx: "lower (suffix n) \<in> set IMAGE_SUFFIXES"
      by (auto simp: selected_def split: option.splits node.splits)
    from Cons.prems(1) b sfx obtain img where img: "decode L b = Some img"
      by (auto split: option.splits)
    let ?new = "File (encode L (thumbnail_args L img))"
    from Cons.prems(1) b sfx img t
    have rest: "thumbs_loop L es names (AList.update t ?new ths) = Inr ths'"
      by (auto split: option.splits node.splits if_splits)
    from thumbs_loop_untouched [OF rest True] have "map_of ths' t = Some ?new"
      by (simp add: update_conv')
    with b img lw show ?thesis by simp
  qed
qed

lemma waypoints_loop_each_dir: "waypoints_loop L names st = each_dir (process_waypoint L) names st"
proof (induction names arbitrary: st)
  case Nil
  show ?case by simp
next
  case (Cons n names)
  obtain d out where st: "st = (d, out)" by (cases st)
  show ?case
    unfolding st using Cons.IH
    by (simp split: option.splits node.splits sum.splits prod.splits)
qed

lemma trails_loop_each_dir:
  "trails_loop L td names st = each_dir (trail_body L td) names st"
proof (induction names arbitrary: st)
  case Nil
  show ?case by simp
next
  case (Cons n names)
  obtain d out where st: "st = (d, out)" by (cases st)
  show ?case
    unfolding st using Cons.IH
    by (simp add: trail_body_def split: option.splits node.splits sum.splits prod.splits)
qed


lemma put_Dir: "put (Dir es) n c = Dir (AList.update n c es)"
  by (simp add: put_def)

lemma each_dir_Cons_Dir:
  "each_dir f (n # rest) (Dir es, out) =
     (case map_of es n of
        Some (Dir x) \<Rightarrow>
          (case f n (Dir x) of
             Inl e \<Rightarrow> Inl e
           | Inr (c', out') \<Rightarrow> each_dir f rest (Dir (AList.update n c' es), out @ out'))
      | _ \<Rightarrow> each_dir f rest (Dir es, out))"
  by (simp add: put_Dir split: option.splits node.splits sum.splits prod.splits)

text \<open>One step of a run that ends well.\<close>

lemma each_dir_step:
  assumes "each_dir f (n # rest) (Dir es, out) = Inr r"
  shows "(\<exists>x c' out'. map_of es n = Some (Dir x) \<and> f n (Dir x) = Inr (c', out')
            \<and> each_dir f rest (Dir (AList.update n c' es), out @ out') = Inr r)
       \<or> ((\<forall>x. map_of es n \<noteq> Some (Dir x)) \<and> each_dir f rest (Dir es, out) = Inr r)"
  using assms unfolding each_dir_Cons_Dir
  by (auto split: option.splits node.splits sum.splits prod.splits)

lemma each_dir_result_Dir:
  "each_dir f names (Dir es, out) = Inr (d', out') \<Longrightarrow> \<exists>es'. d' = Dir es'"
proof (induction names arbitrary: es out)
  case Nil
  then show ?case by auto
next
  case (Cons n names)
  from each_dir_step [OF Cons.prems] Cons.IH show ?case by blast
qed

text \<open>Entries that are files stay as they are, and directories stay directories.\<close>

lemma each_dir_kinds:
  assumes "keeps_dir f" and "each_dir f names (Dir es, out) = Inr (Dir es', out')"
  shows "(map_of es k = None \<longrightarrow> map_of es' k = None)
       \<and> (\<forall>b. map_of es k = Some (File b) \<longrightarrow> map_of es' k = Some (File b))
       \<and> (\<forall>x. map_of es k = Some (Dir x) \<longrightarrow> (\<exists>x'. map_of es' k = Some (Dir x')))"
  using assms(2)
proof (induction names arbitrary: es out)
  case Nil
  then show ?case by simp
next
  case (Cons n names)
  from each_dir_step [OF Cons.prems] show ?case
  proof (elim disjE exE conjE)
    fix x c' o1
    assume n: "map_of es n = Some (Dir x)" and f: "f n (Dir x) = Inr (c', o1)"
      and rest: "each_dir f names (Dir (AList.update n c' es), out @ o1) = Inr (Dir es', out')"
    from assms(1) f obtain x' where c': "c' = Dir x'"
      unfolding keeps_dir_def by blast
    from Cons.IH [OF rest] n c' show ?thesis
      by (cases "k = n") (auto simp: update_conv')
  next
    assume "each_dir f names (Dir es, out) = Inr (Dir es', out')"
    from Cons.IH [OF this] show ?thesis .
  qed
qed

lemma each_dir_keys:
  assumes "each_dir f names (Dir es, out) = Inr (Dir es', out')"
  shows "map fst es' = map fst es"
  using assms
proof (induction names arbitrary: es out)
  case Nil
  then show ?case by simp
next
  case (Cons n names)
  from each_dir_step [OF Cons.prems] show ?case
  proof (elim disjE exE conjE)
    fix x c' o1
    assume n: "map_of es n = Some (Dir x)"
      and rest: "each_dir f names (Dir (AList.update n c' es), out @ o1) = Inr (Dir es', out')"
    from n have "n \<in> set (map fst es)"
      by (metis domI dom_map_of_conv_image_fst set_map)
    with Cons.IH [OF rest] show ?thesis
      by (simp add: update_keys)
  next
    assume "each_dir f names (Dir es, out) = Inr (Dir es', out')"
    from Cons.IH [OF this] show ?thesis .
  qed
qed

text \<open>An entry on which the body changes nothing is the same after the loop.\<close>

lemma each_dir_fixed_entry:
  assumes "each_dir f names (Dir es, out) = Inr (Dir es', out')"
    and "map_of es k = Some c" and "\<forall>x. c = Dir x \<longrightarrow> (\<exists>oc. f k c = Inr (c, oc))"
  shows "map_of es' k = Some c"
  using assms(1,2)
proof (induction names arbitrary: es out)
  case Nil
  then show ?case by simp
next
  case (Cons n names)
  from each_dir_step [OF Cons.prems(1)] show ?case
  proof (elim disjE exE conjE)
    fix x c' o1
    assume n: "map_of es n = Some (Dir x)" and f: "f n (Dir x) = Inr (c', o1)"
      and rest: "each_dir f names (Dir (AList.update n c' es), out @ o1) = Inr (Dir es', out')"
    have "map_of (AList.update n c' es) k = Some c"
    proof (cases "k = n")
      case True
      with n Cons.prems(2) have "c = Dir x" by simp
      with assms(3) True f have "c' = c" by auto
      with True show ?thesis by (simp add: update_conv')
    next
      case False
      with Cons.prems(2) show ?thesis by (simp add: update_conv')
    qed
    from Cons.IH [OF rest this] show ?thesis .
  next
    assume "each_dir f names (Dir es, out) = Inr (Dir es', out')"
    from Cons.IH [OF this Cons.prems(2)] show ?thesis .
  qed
qed

text \<open>Running the loop again on its result gives the same result and the same lines.\<close>

lemma each_dir_idem:
  assumes kd: "keeps_dir f" and idem: "idem_body f"
    and run: "each_dir f names (Dir es, out) = Inr (Dir es', out')"
  shows "each_dir f names (Dir es', out) = Inr (Dir es', out')"
  using run
proof (induction names arbitrary: es out)
  case Nil
  then show ?case by simp
next
  case (Cons n names)
  from each_dir_step [OF Cons.prems] show ?case
  proof (elim disjE exE conjE)
    fix x c' o1
    assume n: "map_of es n = Some (Dir x)" and f: "f n (Dir x) = Inr (c', o1)"
      and rest: "each_dir f names (Dir (AList.update n c' es), out @ o1) = Inr (Dir es', out')"
    from kd f obtain x' where c': "c' = Dir x'"
      unfolding keeps_dir_def by blast
    from idem f have again: "f n c' = Inr (c', o1)"
      unfolding idem_body_def by blast
    have "map_of (AList.update n c' es) n = Some c'"
      by (simp add: update_conv')
    from each_dir_fixed_entry [OF rest this] again have at_n: "map_of es' n = Some c'"
      by blast
    then have same: "AList.update n c' es' = es'"
      by (rule update_triv)
    from Cons.IH [OF rest] have "each_dir f names (Dir es', out @ o1) = Inr (Dir es', out')" .
    with at_n c' again same show ?thesis
      by (simp add: put_Dir)
  next
    assume no: "\<forall>x. map_of es n \<noteq> Some (Dir x)"
      and rest: "each_dir f names (Dir es, out) = Inr (Dir es', out')"
    from each_dir_kinds [OF kd rest, of n] no have "\<forall>x. map_of es' n \<noteq> Some (Dir x)"
      by (cases "map_of es n") (auto split: node.splits, (metis node.exhaust node.distinct(1) option.inject)+)
    with Cons.IH [OF rest] show ?thesis
      by (auto simp: each_dir_Cons_Dir split: option.splits node.splits)
  qed
qed

section \<open>Running a waypoint, a trail and the whole tree twice\<close>

lemma process_waypoint_Inr:
  assumes "process_waypoint L w (Dir es) = Inr (wp', out)"
  shows "\<exists>ths'. (\<forall>b. map_of es ''thumbs'' \<noteq> Some (File b))
           \<and> thumbs_loop L es (inputs es) (thumbs_entries es) = Inr ths'
           \<and> wp' = Dir (AList.update ''thumbs'' (Dir ths') es)
           \<and> out = map thumb_line (inputs es) @ [ProcessedWaypoint w (jpg_count ths')]"
  using assms unfolding process_waypoint_char
  by (auto split: option.splits node.splits sum.splits)

lemma inputs_not_thumbs:
  assumes "\<forall>b. map_of es ''thumbs'' \<noteq> Some (File b)" and "n \<in> set (inputs es)"
  shows "n \<noteq> ''thumbs''"
  using assms by (auto simp: inputs_def selected_def split: option.splits node.splits)

lemma process_waypoint_idem:
  assumes "process_waypoint L w (Dir es) = Inr (wp', out)"
  shows "process_waypoint L w wp' = Inr (wp', out)"
proof -
  from process_waypoint_Inr [OF assms] obtain ths' where
    nofile: "\<forall>b. map_of es ''thumbs'' \<noteq> Some (File b)"
    and loop: "thumbs_loop L es (inputs es) (thumbs_entries es) = Inr ths'"
    and wp': "wp' = Dir (AList.update ''thumbs'' (Dir ths') es)"
    and out: "out = map thumb_line (inputs es) @ [ProcessedWaypoint w (jpg_count ths')]"
    by blast
  let ?es' = "AList.update ''thumbs'' (Dir ths') es"
  from nofile have nosel: "\<not> selected es ''thumbs''"
    by (auto simp: selected_def split: option.splits node.splits)
  have th: "map_of ?es' ''thumbs'' = Some (Dir ths')"
    by (simp add: update_conv')
  then have te: "thumbs_entries ?es' = ths'"
    by (simp add: thumbs_entries_def)
  have inp: "inputs ?es' = inputs es"
    using inputs_with_thumbs [OF nosel, of ths'] by (simp add: inputs_def)
  have "thumbs_loop L ?es' (inputs es) ths' = thumbs_loop L es (inputs es) ths'"
  proof (rule thumbs_loop_cong, rule ballI)
    fix n assume "n \<in> set (inputs es)"
    from inputs_not_thumbs [OF nofile this] show "map_of ?es' n = map_of es n"
      by (simp add: update_conv')
  qed
  also have "\<dots> = Inr ths'"
    by (rule thumbs_loop_idem [OF loop])
  finally have again: "thumbs_loop L ?es' (inputs es) ths' = Inr ths'" .
  show ?thesis
    unfolding wp' process_waypoint_char
    by (simp add: th te inp again out)
qed

lemma keeps_dir_waypoint: "keeps_dir (process_waypoint L)"
  unfolding keeps_dir_def by (blast dest: process_waypoint_Inr)

lemma idem_body_waypoint: "idem_body (process_waypoint L)"
  unfolding idem_body_def by (blast intro: process_waypoint_idem)

text \<open>\<^verbatim>\<open>process_trail\<close> and \<^verbatim>\<open>main\<close> in terms of the entries of their directory.\<close>

lemma process_trail_char:
  "process_trail L tp (Dir tes) =
     (case map_of tes ''photos'' of
        None \<Rightarrow> Inr (Dir tes, [NoPhotosDir (tp @ [''photos''])])
      | Some (File b) \<Rightarrow> Inl NotADirectoryError
      | Some (Dir pes) \<Rightarrow>
          (case each_dir (process_waypoint L) (sort (map fst pes)) (Dir pes, []) of
             Inl e \<Rightarrow> Inl e
           | Inr (photos', out) \<Rightarrow> Inr (Dir (AList.update ''photos'' photos' tes), out)))"
  by (simp add: process_trail_def exists_path_def sorted_iterdir_def put_Dir Let_def
        waypoints_loop_each_dir split: option.splits node.splits sum.splits prod.splits)

lemma main_char:
  "main L rd (Dir res) =
     (case map_of res ''trails'' of
        None \<Rightarrow> Inr (Dir res, [TrailsNotFound (rd @ [''trails''])])
      | Some (File b) \<Rightarrow> Inl NotADirectoryError
      | Some (Dir tes) \<Rightarrow>
          (case each_dir (trail_body L (rd @ [''trails''])) (sort (map fst tes)) (Dir tes, []) of
             Inl e \<Rightarrow> Inl e
           | Inr (trails', out) \<Rightarrow> Inr (Dir (AList.update ''trails'' trails' res), out @ [Done])))"
  by (simp add: main_def exists_path_def sorted_iterdir_def put_Dir Let_def
        trails_loop_each_dir split: option.splits node.splits sum.splits prod.splits)

lemma process_trail_Inr:
  assumes "process_trail L tp (Dir tes) = Inr (t', out)"
  shows "(map_of tes ''photos'' = None \<and> t' = Dir tes \<and> out = [NoPhotosDir (tp @ [''photos''])])
       \<or> (\<exists>pes pes'. map_of tes ''photos'' = Some (Dir pes)
             \<and> each_dir (process_waypoint L) (sort (map fst pes)) (Dir pes, []) = Inr (Dir pes', out)
             \<and> t' = Dir (AList.update ''photos'' (Dir pes') tes))"
proof (cases "map_of tes ''photos''")
  case None
  with assms show ?thesis by (simp add: process_trail_char)
next
  case (Some c)
  show ?thesis
  proof (cases c)
    case (File b)
    with Some assms show ?thesis by (simp add: process_trail_char)
  next
    case (Dir pes)
    with Some assms obtain photos' where
      run: "each_dir (process_waypoint L) (sort (map fst pes)) (Dir pes, []) = Inr (photos', out)"
      and t': "t' = Dir (AList.update ''photos'' photos' tes)"
      by (auto simp: process_trail_char split: sum.splits)
    from each_dir_result_Dir [OF run] obtain pes' where "photos' = Dir pes'" by blast
    with run t' Some Dir show ?thesis by blast
  qed
qed

lemma process_trail_idem:
  assumes "process_trail L tp (Dir tes) = Inr (t', out)"
  shows "process_trail L tp t' = Inr (t', out)"
  using process_trail_Inr [OF assms]
proof (elim disjE exE conjE)
  assume "map_of tes ''photos'' = None" "t' = Dir tes" "out = [NoPhotosDir (tp @ [''photos''])]"
  then show ?thesis by (simp add: process_trail_char)
next
  fix pes pes'
  assume ph: "map_of tes ''photos'' = Some (Dir pes)"
    and run: "each_dir (process_waypoint L) (sort (map fst pes)) (Dir pes, []) = Inr (Dir pes', out)"
    and t': "t' = Dir (AList.update ''photos'' (Dir pes') tes)"
  from each_dir_keys [OF run] have keys: "map fst pes' = map fst pes" .
  from each_dir_idem [OF keeps_dir_waypoint idem_body_waypoint run]
  have "each_dir (process_waypoint L) (sort (map fst pes')) (Dir pes', []) = Inr (Dir pes', out)"
    by (simp add: keys)
  then show ?thesis
    unfolding t' process_trail_char by (simp add: update_conv')
qed

lemma keeps_dir_trail: "keeps_dir (trail_body L td)"
  unfolding keeps_dir_def trail_body_def
  by (auto split: sum.splits dest!: process_trail_Inr)

lemma idem_body_trail: "idem_body (trail_body L td)"
  unfolding idem_body_def trail_body_def
  by (auto split: sum.splits dest!: process_trail_idem)

lemma main_Inr:
  assumes "main L rd (Dir res) = Inr (root', out)"
  shows "(map_of res ''trails'' = None \<and> root' = Dir res
            \<and> out = [TrailsNotFound (rd @ [''trails''])])
       \<or> (\<exists>tes tes' out1. map_of res ''trails'' = Some (Dir tes)
             \<and> each_dir (trail_body L (rd @ [''trails''])) (sort (map fst tes)) (Dir tes, [])
                 = Inr (Dir tes', out1)
             \<and> root' = Dir (AList.update ''trails'' (Dir tes') res) \<and> out = out1 @ [Done])"
proof (cases "map_of res ''trails''")
  case None
  with assms show ?thesis by (simp add: main_char)
next
  case (Some c)
  show ?thesis
  proof (cases c)
    case (File b)
    with Some assms show ?thesis by (simp add: main_char)
  next
    case (Dir tes)
    with Some assms obtain trails' out1 where
      run: "each_dir (trail_body L (rd @ [''trails''])) (sort (map fst tes)) (Dir tes, [])
              = Inr (trails', out1)"
      and r: "root' = Dir (AList.update ''trails'' trails' res)" "out = out1 @ [Done]"
      by (auto simp: main_char split: sum.splits)
    from each_dir_result_Dir [OF run] obtain tes' where "trails' = Dir tes'" by blast
    with run r Some Dir show ?thesis by blast
  qed
qed

lemma main_idem:
  assumes "main L rd (Dir res) = Inr (root', out)"
  shows "main L rd root' = Inr (root', out)"
  using main_Inr [OF assms]
proof (elim disjE exE conjE)
  assume "map_of res ''trails'' = None" "root' = Dir res"
    "out = [TrailsNotFound (rd @ [''trails''])]"
  then show ?thesis by (simp add: main_char)
next
  fix tes tes' out1
  assume tr: "map_of res ''trails'' = Some (Dir tes)"
    and run: "each_dir (trail_body L (rd @ [''trails''])) (sort (map fst tes)) (Dir tes, [])
                = Inr (Dir tes', out1)"
    and r: "root' = Dir (AList.update ''trails'' (Dir tes') res)" "out = out1 @ [Done]"
  from each_dir_keys [OF run] have keys: "map fst tes' = map fst tes" .
  from each_dir_idem [OF keeps_dir_trail idem_body_trail run]
  have "each_dir (trail_body L (rd @ [''trails''])) (sort (map fst tes')) (Dir tes', [])
          = Inr (Dir tes', out1)"
    by (simp add: keys)
  then show ?thesis
    unfolding r main_char by (simp add: update_conv')
qed

section \<open>Which entries of a waypoint directory become thumbnails\<close>

lemma selected_iff:
  "selected es n \<longleftrightarrow>
     (\<exists>b. map_of es n = Some (File b)) \<and> lower (suffix n) \<in> set IMAGE_SUFFIXES"
  by (auto simp: selected_def split: option.splits node.splits)

lemma selected_in_inputs: "selected es n \<Longrightarrow> n \<in> set (inputs es)"
  by (auto simp: inputs_def selected_def split: option.splits node.splits
        dest: map_of_SomeD intro: rev_image_eqI)

lemma writers_inputs:
  "writers es (inputs es) (stem n @ ''.jpg'')
     = filter (\<lambda>k. selected es k \<and> stem k = stem n) (sort (map fst es))"
  by (auto simp: writers_def inputs_def intro: filter_cong)

lemma read_thumb:
  "read_file (Dir (AList.update ''thumbs'' (Dir ths) es)) [''thumbs'', t] =
     (case map_of ths t of
        None \<Rightarrow> Inl FileNotFoundError
      | Some (Dir d) \<Rightarrow> Inl IsADirectoryError
      | Some (File b) \<Rightarrow> Inr b)"
  by (simp add: update_conv' split: option.splits node.splits)

lemma demo_waypoint_run:
  "process_waypoint demo_pil ''W1'' (Dir demo_waypoint_entries)
     = Inr (demo_waypoint_done, demo_waypoint_out)"
  by code_simp

lemma demo_selected: "selected demo_waypoint_entries ''img.JPG''"
  by code_simp

lemma process_waypoint_last_writer:
  assumes run: "process_waypoint L w (Dir es) = Inr (wp', out)" and sel: "selected es n"
  shows "\<exists>b img. map_of es (last (filter (\<lambda>k. selected es k \<and> stem k = stem n)
                                     (sort (map fst es)))) = Some (File b)
           \<and> decode L b = Some img
           \<and> read_file wp' [''thumbs'', stem n @ ''.jpg'']
               = Inr (encode L (thumbnail_args L img))"
proof -
  from process_waypoint_Inr [OF run] obtain ths' where
    loop: "thumbs_loop L es (inputs es) (thumbs_entries es) = Inr ths'"
    and wp': "wp' = Dir (AList.update ''thumbs'' (Dir ths') es)"
    by blast
  let ?t = "stem n @ ''.jpg''"
  from selected_in_inputs [OF sel] sel have "n \<in> set (writers es (inputs es) ?t)"
    by (simp add: writers_def)
  then have ne: "writers es (inputs es) ?t \<noteq> []" by auto
  from thumbs_loop_last_writer [OF loop ne] obtain b img where
    "map_of es (last (writers es (inputs es) ?t)) = Some (File b)"
    "decode L b = Some img"
    "map_of ths' ?t = Some (File (encode L (thumbnail_args L img)))"
    by blast
  then show ?thesis
    unfolding wp' read_thumb writers_inputs by auto
qed

text \<open>
  Claim C6. In a run of a waypoint directory that ends without error, the entries
  turned into thumbnails are, in sorted order, exactly those that are files and whose
  suffix, lowered, is one of the four image suffixes: one line is printed for each of
  them and its thumbnail exists afterwards. Nothing else is printed but the count line
  of this waypoint, and every entry other than the thumbs directory is as it was.
\<close>

theorem C6_only_image_files_processed:
  assumes "process_waypoint L w (Dir es) = Inr (wp', out)"
  shows "(\<forall>n. selected es n \<longleftrightarrow>
               (\<exists>b. map_of es n = Some (File b))
             \<and> lower (suffix n) \<in> set [''.jpg'', ''.jpeg'', ''.png'', ''.webp''])
       \<and> (\<exists>k. out = map (\<lambda>n. ThumbLine n (stem n @ ''.jpg''))
                       (filter (selected es) (sort (map fst es)))
                     @ [ProcessedWaypoint w k])
       \<and> (\<forall>n. selected es n \<longrightarrow> (\<exists>v. read_file wp' [''thumbs'', stem n @ ''.jpg''] = Inr v))
       \<and> (\<forall>n. n \<noteq> ''thumbs'' \<longrightarrow> lookup wp' [n] = lookup (Dir es) [n])"
proof (intro conjI allI impI)
  fix n
  show "selected es n \<longleftrightarrow>
               (\<exists>b. map_of es n = Some (File b))
             \<and> lower (suffix n) \<in> set [''.jpg'', ''.jpeg'', ''.png'', ''.webp'']"
    using selected_iff [of es n] by (simp add: IMAGE_SUFFIXES_def)
next
  from process_waypoint_Inr [OF assms] obtain ths' where
    "wp' = Dir (AList.update ''thumbs'' (Dir ths') es)"
    "out = map thumb_line (inputs es) @ [ProcessedWaypoint w (jpg_count ths')]"
    by blast
  then show "\<exists>k. out = map (\<lambda>n. ThumbLine n (stem n @ ''.jpg''))
                       (filter (selected es) (sort (map fst es)))
                     @ [ProcessedWaypoint w k]"
    by (auto simp: inputs_def thumb_line_def [abs_def])
next
  fix n assume "selected es n"
  from process_waypoint_last_writer [OF assms this]
  show "\<exists>v. read_file wp' [''thumbs'', stem n @ ''.jpg''] = Inr v" by blast
next
  fix n :: string assume "n \<noteq> ''thumbs''"
  moreover from process_waypoint_Inr [OF assms] obtain ths' where
    "wp' = Dir (AList.update ''thumbs'' (Dir ths') es)" by blast
  ultimately show "lookup wp' [n] = lookup (Dir es) [n]"
    by (simp add: update_conv')
qed

theorem C6_only_image_files_processed_witness:
  "process_waypoint demo_pil ''W1'' (Dir demo_waypoint_entries)
     = Inr (demo_waypoint_done, demo_waypoint_out)
   \<and> filter (selected demo_waypoint_entries) (sort (map fst demo_waypoint_entries))
       = [''img.JPG'', ''img.png'']
   \<and> (\<exists>k. demo_waypoint_out
        = map (\<lambda>n. ThumbLine n (stem n @ ''.jpg''))
            (filter (selected demo_waypoint_entries) (sort (map fst demo_waypoint_entries)))
          @ [ProcessedWaypoint ''W1'' k])
   \<and> lookup demo_waypoint_done [''notes.txt''] = Some (File ([], (0, 0), []))"
proof -
  have f: "filter (selected demo_waypoint_entries) (sort (map fst demo_waypoint_entries))
       = [''img.JPG'', ''img.png'']"
    by code_simp
  have l: "lookup demo_waypoint_done [''notes.txt''] = Some (File ([], (0, 0), []))"
    by code_simp
  from C6_only_image_files_processed [OF demo_waypoint_run] demo_waypoint_run f l
  show ?thesis by blast
qed



section \<open>Entries that are not directories\<close>

lemma map_of_dirs_only:
  "distinct (map fst es) \<Longrightarrow>
     map_of (dirs_only es) n = (case map_of es n of Some (Dir x) \<Rightarrow> Some (Dir x) | _ \<Rightarrow> None)"
proof (induction es)
  case Nil
  show ?case by (simp add: dirs_only_def)
next
  case (Cons e es)
  obtain k c where e: "e = (k, c)" by (cases e)
  from Cons.prems e have notin: "k \<notin> fst ` set es" and d: "distinct (map fst es)"
    by auto
  from notin have none: "map_of es k = None"
    by (simp add: map_of_eq_None_iff)
  have none': "map_of (dirs_only es) k = None"
    using notin by (auto simp: map_of_eq_None_iff dirs_only_def)
  from Cons.IH [OF d] have ih: "map_of (dirs_only es) n
      = (case map_of es n of Some (Dir x) \<Rightarrow> Some (Dir x) | _ \<Rightarrow> None)" .
  show ?case
  proof (cases "n = k")
    case True
    with e none none' show ?thesis
      by (cases c) (simp_all add: dirs_only_def)
  next
    case False
    with e ih show ?thesis
      by (cases c) (simp_all add: dirs_only_def)
  qed
qed

lemma dirs_only_update:
  "distinct (map fst es) \<Longrightarrow> map_of es n = Some (Dir x)
     \<Longrightarrow> dirs_only (AList.update n (Dir x') es) = AList.update n (Dir x') (dirs_only es)"
proof (induction es)
  case Nil
  then show ?case by simp
next
  case (Cons e es)
  obtain k c where e: "e = (k, c)" by (cases e)
  show ?case
  proof (cases "n = k")
    case True
    with Cons.prems e show ?thesis
      by (simp add: dirs_only_def)
  next
    case False
    with Cons.prems e have "dirs_only (AList.update n (Dir x') es)
        = AList.update n (Dir x') (dirs_only es)"
      by (intro Cons.IH) auto
    with False e show ?thesis
      by (cases c) (simp_all add: dirs_only_def)
  qed
qed

lemma dirs_only_keys:
  "distinct (map fst es) \<Longrightarrow>
     filter (\<lambda>n. is_dir (Dir es) [n]) (map fst es) = map fst (dirs_only es)"
proof (induction es)
  case Nil
  show ?case by (simp add: dirs_only_def)
next
  case (Cons e es)
  obtain k c where e: "e = (k, c)" by (cases e)
  from Cons.prems e have notin: "k \<notin> fst ` set es" and d: "distinct (map fst es)"
    by auto
  have "filter (\<lambda>n. is_dir (Dir (e # es)) [n]) (map fst es)
          = filter (\<lambda>n. is_dir (Dir es) [n]) (map fst es)"
    using notin e by (intro filter_cong) (auto simp: is_dir_Dir1)
  with Cons.IH [OF d] e show ?case
    by (cases c) (simp_all add: dirs_only_def is_dir_Dir1)
qed

lemma distinct_dirs_only: "distinct (map fst es) \<Longrightarrow> distinct (map fst (dirs_only es))"
  by (simp add: dirs_only_def distinct_map_filter)

lemma dirs_only_idem: "dirs_only (dirs_only es) = dirs_only es"
  by (simp add: dirs_only_def)

lemma is_dir_dirs_only:
  "distinct (map fst es) \<Longrightarrow> is_dir (Dir (dirs_only es)) [n] = is_dir (Dir es) [n]"
  by (simp add: is_dir_Dir1 map_of_dirs_only split: option.splits node.splits)

text \<open>The loop does the same on the names that are directories alone.\<close>

lemma each_dir_skip:
  assumes kd: "keeps_dir f"
  shows "each_dir f names (Dir es, out)
           = each_dir f (filter (\<lambda>n. is_dir (Dir es) [n]) names) (Dir es, out)"
proof (induction names arbitrary: es out)
  case Nil
  show ?case by simp
next
  case (Cons n names)
  show ?case
  proof (cases "is_dir (Dir es) [n]")
    case False
    then have "\<forall>x. map_of es n \<noteq> Some (Dir x)"
      by (auto simp: is_dir_Dir1)
    with False Cons.IH [of es out] show ?thesis
      by (auto simp: each_dir_Cons_Dir split: option.splits node.splits)
  next
    case True
    then obtain x where n: "map_of es n = Some (Dir x)"
      by (auto simp: is_dir_Dir1 split: option.splits node.splits)
    show ?thesis
    proof (cases "f n (Dir x)")
      case (Inl e)
      with True n show ?thesis
        by (simp add: each_dir_Cons_Dir del: each_dir.simps)
    next
      case (Inr r)
      obtain c' o1 where r: "r = (c', o1)" by (cases r)
      from kd Inr r obtain x' where c': "c' = Dir x'"
        unfolding keeps_dir_def by blast
      have same: "is_dir (Dir (AList.update n c' es)) [m] = is_dir (Dir es) [m]" for m
        using n c' by (simp add: is_dir_Dir1 update_conv')
      from True n Inr r Cons.IH [of "AList.update n c' es" "out @ o1"] show ?thesis
        by (simp add: each_dir_Cons_Dir same del: each_dir.simps)
    qed
  qed
qed

text \<open>
  With the entries that are not directories removed from the listing and from the
  directory, the loop fails with the same error or prints the same lines, and leaves the
  same directories.
\<close>

lemma each_dir_dirs_only:
  assumes kd: "keeps_dir f" and d: "distinct (map fst es)"
  shows "each_dir f names (Dir (dirs_only es), out) =
           (case each_dir f names (Dir es, out) of
              Inl e \<Rightarrow> Inl e
            | Inr (d', out') \<Rightarrow>
                Inr ((case d' of Dir es' \<Rightarrow> Dir (dirs_only es') | File b \<Rightarrow> File b), out'))"
  using d
proof (induction names arbitrary: es out)
  case Nil
  show ?case by simp
next
  case (Cons n names)
  note mo = map_of_dirs_only [OF Cons.prems, of n]
  show ?case
  proof (cases "\<exists>x. map_of es n = Some (Dir x)")
    case False
    with mo have "map_of (dirs_only es) n = None"
      by (auto split: option.splits node.splits)
    with False Cons.IH [OF Cons.prems, of out] show ?thesis
      by (auto simp: each_dir_Cons_Dir simp del: each_dir.simps
            split: option.splits node.splits)
  next
    case True
    then obtain x where n: "map_of es n = Some (Dir x)" by blast
    with mo have n': "map_of (dirs_only es) n = Some (Dir x)" by simp
    show ?thesis
    proof (cases "f n (Dir x)")
      case (Inl e)
      with n n' show ?thesis
        by (simp add: each_dir_Cons_Dir del: each_dir.simps)
    next
      case (Inr r)
      obtain c' o1 where r: "r = (c', o1)" by (cases r)
      from kd Inr r obtain x' where c': "c' = Dir x'"
        unfolding keeps_dir_def by blast
      have upd: "dirs_only (AList.update n c' es) = AList.update n c' (dirs_only es)"
        unfolding c' by (rule dirs_only_update [OF Cons.prems n])
      have d': "distinct (map fst (AList.update n c' es))"
        by (rule distinct_update [OF Cons.prems])
      from n n' Inr r Cons.IH [OF d', of "out @ o1"] show ?thesis
        by (simp add: each_dir_Cons_Dir upd del: each_dir.simps)
    qed
  qed
qed

lemma each_dir_listing_dirs_only:
  assumes kd: "keeps_dir f" and d: "distinct (map fst es)"
  shows "each_dir f (sort (map fst (dirs_only es))) (Dir (dirs_only es), out) =
           (case each_dir f (sort (map fst es)) (Dir es, out) of
              Inl e \<Rightarrow> Inl e
            | Inr (d', out') \<Rightarrow>
                Inr ((case d' of Dir es' \<Rightarrow> Dir (dirs_only es') | File b \<Rightarrow> File b), out'))"
proof -
  let ?D = "dirs_only es"
  have dD: "distinct (map fst ?D)" by (rule distinct_dirs_only [OF d])
  have isd: "(\<lambda>n. is_dir (Dir ?D) [n]) = (\<lambda>n. is_dir (Dir es) [n])"
    by (simp add: is_dir_dirs_only [OF d])
  have "filter (\<lambda>n. is_dir (Dir ?D) [n]) (sort (map fst ?D))
          = sort (filter (\<lambda>n. is_dir (Dir ?D) [n]) (map fst ?D))"
    by (simp add: filter_sort)
  also have "\<dots> = sort (map fst (dirs_only ?D))"
    by (simp add: dirs_only_keys [OF dD])
  also have "\<dots> = sort (filter (\<lambda>n. is_dir (Dir es) [n]) (map fst es))"
    by (simp add: dirs_only_idem dirs_only_keys [OF d])
  also have "\<dots> = filter (\<lambda>n. is_dir (Dir ?D) [n]) (sort (map fst es))"
    by (simp add: filter_sort isd)
  finally have names: "filter (\<lambda>n. is_dir (Dir ?D) [n]) (sort (map fst ?D))
          = filter (\<lambda>n. is_dir (Dir ?D) [n]) (sort (map fst es))" .
  have "each_dir f (sort (map fst ?D)) (Dir ?D, out)
          = each_dir f (filter (\<lambda>n. is_dir (Dir ?D) [n]) (sort (map fst ?D))) (Dir ?D, out)"
    by (rule each_dir_skip [OF kd])
  also have "\<dots> = each_dir f (filter (\<lambda>n. is_dir (Dir ?D) [n]) (sort (map fst es))) (Dir ?D, out)"
    by (simp only: names)
  also have "\<dots> = each_dir f (sort (map fst es)) (Dir ?D, out)"
    by (rule each_dir_skip [OF kd, symmetric])
  finally show ?thesis
    by (simp only: each_dir_dirs_only [OF kd d])
qed

text \<open>A run that ends well has run its body well on every directory it met.\<close>

lemma each_dir_all_ok:
  assumes "each_dir f names (Dir es, out) = Inr r" and "n \<in> set names"
    and "map_of es n = Some (Dir x)"
  shows "\<exists>r'. f n (Dir x) = Inr r'"
  using assms
proof (induction names arbitrary: es out)
  case Nil
  then show ?case by simp
next
  case (Cons m names)
  from each_dir_step [OF Cons.prems(1)] show ?case
  proof (elim disjE exE conjE)
    fix y c' o1
    assume m: "map_of es m = Some (Dir y)" and f: "f m (Dir y) = Inr (c', o1)"
      and rest: "each_dir f names (Dir (AList.update m c' es), out @ o1) = Inr r"
    show ?thesis
    proof (cases "n = m")
      case True
      with m f Cons.prems(3) show ?thesis by auto
    next
      case False
      with Cons.prems(2) have "n \<in> set names" by simp
      moreover from False Cons.prems(3) have "map_of (AList.update m c' es) n = Some (Dir x)"
        by (simp add: update_conv')
      ultimately show ?thesis by (rule Cons.IH [OF rest])
    qed
  next
    assume no: "\<forall>y. map_of es m \<noteq> Some (Dir y)"
      and rest: "each_dir f names (Dir es, out) = Inr r"
    from no Cons.prems(3) have "n \<noteq> m" by auto
    with Cons.prems(2) have "n \<in> set names" by simp
    then show ?thesis by (rule Cons.IH [OF rest _ Cons.prems(3)])
  qed
qed

lemma thumbs_loop_all_ok:
  assumes "thumbs_loop L es names ths = Inr ths'" and "n \<in> set names" and "selected es n"
  shows "\<exists>b img. map_of es n = Some (File b) \<and> decode L b = Some img
           \<and> writable (thumbnail_args L img)"
  using assms
proof (induction names arbitrary: ths)
  case Nil
  then show ?case by simp
next
  case (Cons m names)
  show ?case
  proof (cases "n = m")
    case True
    with Cons.prems(1,3) show ?thesis
      by (auto simp: selected_def split: option.splits node.splits if_splits)
  next
    case False
    with Cons.prems(2) have mem: "n \<in> set names" by simp
    from thumbs_loop_step [OF Cons.prems(1)] obtain ths1 where
      "thumbs_loop L es names ths1 = Inr ths'" by blast
    from Cons.IH [OF this mem Cons.prems(3)] show ?thesis .
  qed
qed

section \<open>Runs of the whole tree\<close>

lemma demo_main_run:
  "main demo_pil [''proj''] (Dir demo_root_entries) = Inr (demo_root_done, demo_main_out)"
  by code_simp

lemma demo_trail_run:
  "process_trail demo_pil [''proj'', ''trails'', ''A''] (Dir [(''photos'', Dir demo_photos_entries)])
     = Inr (Dir [(''photos'', Dir demo_photos_done)], demo_waypoint_out)"
  by code_simp

lemma main_no_trails:
  "\<not> exists_path root [''trails'']
     \<Longrightarrow> main L rd root = Inr (root, [TrailsNotFound (rd @ [''trails''])])"
  by (simp add: main_def Let_def)

lemma process_trail_no_photos:
  "\<not> exists_path trail [''photos'']
     \<Longrightarrow> process_trail L tp trail = Inr (trail, [NoPhotosDir (tp @ [''photos''])])"
  by (simp add: process_trail_def Let_def)

text \<open>
  Claim C9. When a run of the thumbnail generator ends without error, a second run on
  the tree it left ends without error too, leaves that tree as it is and prints the same
  lines, among them the same count for every waypoint. The same holds for the run of
  one waypoint directory: after it the thumbs directory exists, creating it again leaves
  the waypoint as it is, and the last line printed carries the number of \<^verbatim>\<open>.jpg\<close> entries
  of the thumbs directory, which the second run prints again.
\<close>

theorem C9_second_run_same:
  assumes "main L rd root = Inr (root', out)"
  shows "main L rd root' = Inr (root', out)
       \<and> (\<forall>w es wp' lines. process_waypoint L w (Dir es) = Inr (wp', lines)
             \<longrightarrow> process_waypoint L w wp' = Inr (wp', lines)
                 \<and> is_dir wp' [''thumbs'']
                 \<and> mkdir_exist_ok wp' [''thumbs''] = Inr wp'
                 \<and> lines \<noteq> []
                 \<and> last lines = ProcessedWaypoint w (glob_jpg_count wp' [''thumbs'']))"
proof (intro conjI allI impI)
  show "main L rd root' = Inr (root', out)"
  proof (cases root)
    case (Dir res)
    with assms show ?thesis by (simp add: main_idem)
  next
    case (File b)
    then have no: "\<not> exists_path root [''trails'']"
      by (simp add: exists_path_def)
    from main_no_trails [OF no, of L rd] assms have "root' = root"
      and "out = [TrailsNotFound (rd @ [''trails''])]"
      by simp_all
    with main_no_trails [OF no, of L rd] show ?thesis by simp
  qed
next
  fix w es wp' lines
  assume run: "process_waypoint L w (Dir es) = Inr (wp', lines)"
  then show "process_waypoint L w wp' = Inr (wp', lines)"
    by (rule process_waypoint_idem)
  from process_waypoint_Inr [OF run] obtain ths' where
    wp': "wp' = Dir (AList.update ''thumbs'' (Dir ths') es)"
    and lines: "lines = map thumb_line (inputs es) @ [ProcessedWaypoint w (jpg_count ths')]"
    by blast
  show "is_dir wp' [''thumbs'']"
    by (simp add: wp' is_dir_def update_conv')
  show "mkdir_exist_ok wp' [''thumbs''] = Inr wp'"
    by (simp add: wp' update_conv')
  show "lines \<noteq> []"
    by (simp add: lines)
  show "last lines = ProcessedWaypoint w (glob_jpg_count wp' [''thumbs''])"
    by (simp add: lines wp' glob_jpg_count_def jpg_count_def update_conv')
qed

theorem C9_second_run_same_witness:
  "main demo_pil [''proj''] (Dir demo_root_entries) = Inr (demo_root_done, demo_main_out)
   \<and> main demo_pil [''proj''] demo_root_done = Inr (demo_root_done, demo_main_out)
   \<and> process_waypoint demo_pil ''W1'' (Dir demo_waypoint_entries)
       = Inr (demo_waypoint_done, demo_waypoint_out)
   \<and> process_waypoint demo_pil ''W1'' demo_waypoint_done
       = Inr (demo_waypoint_done, demo_waypoint_out)
   \<and> mkdir_exist_ok demo_waypoint_done [''thumbs''] = Inr demo_waypoint_done
   \<and> last demo_waypoint_out = ProcessedWaypoint ''W1'' 1"
proof -
  have l: "last demo_waypoint_out = ProcessedWaypoint ''W1'' 1"
    by (simp add: demo_waypoint_out_def)
  from C9_second_run_same [OF demo_main_run] demo_main_run demo_waypoint_run l
  show ?thesis by blast
qed

text \<open>
  Claim C10. An entry of the trails root, or of a photos directory, that is not a
  directory is passed over: the turn of the loop for it leaves the tree and the printed
  lines as they are and goes on with the next entry. For whole runs this means that such
  entries change nothing: with the entries that are not directories taken out of the
  directory, the run fails with the same error or prints exactly the same lines and
  leaves the same directories; and when the run ends without error each such entry is
  what it was. Names within a directory are distinct, as they are in a file system.
\<close>

theorem C10_non_directories_skipped:
  "(\<not> is_dir trails [n] \<longrightarrow>
      trails_loop L td (n # names) (trails, out0) = trails_loop L td names (trails, out0))
   \<and> (\<not> is_dir photos [n] \<longrightarrow>
        waypoints_loop L (n # names) (photos, out0) = waypoints_loop L names (photos, out0))
   \<and> (distinct (map fst es) \<and> map_of res ''trails'' = Some (Dir es) \<longrightarrow>
        (case main L rd (Dir res) of
           Inl e \<Rightarrow> main L rd (Dir (AList.update ''trails'' (Dir (dirs_only es)) res)) = Inl e
         | Inr (root', out) \<Rightarrow>
             (\<exists>es'. root' = Dir (AList.update ''trails'' (Dir es') res)
                \<and> (\<forall>n b. map_of es n = Some (File b) \<longrightarrow> map_of es' n = Some (File b))
                \<and> main L rd (Dir (AList.update ''trails'' (Dir (dirs_only es)) res))
                    = Inr (Dir (AList.update ''trails'' (Dir (dirs_only es')) res), out))))
   \<and> (distinct (map fst es) \<and> map_of tes ''photos'' = Some (Dir es) \<longrightarrow>
        (case process_trail L tp (Dir tes) of
           Inl e \<Rightarrow>
             process_trail L tp (Dir (AList.update ''photos'' (Dir (dirs_only es)) tes)) = Inl e
         | Inr (trail', out) \<Rightarrow>
             (\<exists>es'. trail' = Dir (AList.update ''photos'' (Dir es') tes)
                \<and> (\<forall>n b. map_of es n = Some (File b) \<longrightarrow> map_of es' n = Some (File b))
                \<and> process_trail L tp (Dir (AList.update ''photos'' (Dir (dirs_only es)) tes))
                    = Inr (Dir (AList.update ''photos'' (Dir (dirs_only es')) tes), out))))"
proof (intro conjI impI)
  assume "\<not> is_dir trails [n]"
  then show "trails_loop L td (n # names) (trails, out0) = trails_loop L td names (trails, out0)"
    by (auto simp: is_dir_def split: option.splits node.splits)
next
  assume "\<not> is_dir photos [n]"
  then show "waypoints_loop L (n # names) (photos, out0)
               = waypoints_loop L names (photos, out0)"
    by (auto simp: is_dir_def split: option.splits node.splits)
next
  assume h: "distinct (map fst es) \<and> map_of res ''trails'' = Some (Dir es)"
  then have tr: "map_of res ''trails'' = Some (Dir es)" and d: "distinct (map fst es)"
    by simp_all
  let ?f = "trail_body L (rd @ [''trails''])"
  note sim = each_dir_listing_dirs_only [OF keeps_dir_trail d, of L "rd @ [''trails'']" "[]"]
  show "case main L rd (Dir res) of
              Inl e \<Rightarrow> main L rd (Dir (AList.update ''trails'' (Dir (dirs_only es)) res)) = Inl e
            | Inr (root', out) \<Rightarrow>
                (\<exists>es'. root' = Dir (AList.update ''trails'' (Dir es') res)
                   \<and> (\<forall>n b. map_of es n = Some (File b) \<longrightarrow> map_of es' n = Some (File b))
                   \<and> main L rd (Dir (AList.update ''trails'' (Dir (dirs_only es)) res))
                       = Inr (Dir (AList.update ''trails'' (Dir (dirs_only es')) res), out))"
  proof (cases "each_dir ?f (sort (map fst es)) (Dir es, [])")
    case (Inl e)
    with tr sim show ?thesis
      by (simp add: main_char update_conv')
  next
    case (Inr r)
    obtain d' out1 where r: "r = (d', out1)" by (cases r)
    from each_dir_result_Dir Inr r obtain es' where d': "d' = Dir es'" by blast
    from each_dir_kinds [OF keeps_dir_trail Inr [unfolded r d']]
    have files: "\<forall>n b. map_of es n = Some (File b) \<longrightarrow> map_of es' n = Some (File b)"
      by blast
    from tr Inr r d' have run1:
      "main L rd (Dir res) = Inr (Dir (AList.update ''trails'' (Dir es') res), out1 @ [Done])"
      by (simp add: main_char)
    from sim Inr r d' have run2:
      "main L rd (Dir (AList.update ''trails'' (Dir (dirs_only es)) res))
         = Inr (Dir (AList.update ''trails'' (Dir (dirs_only es')) res), out1 @ [Done])"
      by (simp add: main_char update_conv')
    from files run2 show ?thesis
      unfolding run1 by (simp) blast
  qed
next
  assume h: "distinct (map fst es) \<and> map_of tes ''photos'' = Some (Dir es)"
  then have ph: "map_of tes ''photos'' = Some (Dir es)" and d: "distinct (map fst es)"
    by simp_all
  note sim = each_dir_listing_dirs_only [OF keeps_dir_waypoint d, of L "[]"]
  show "case process_trail L tp (Dir tes) of
              Inl e \<Rightarrow>
                process_trail L tp (Dir (AList.update ''photos'' (Dir (dirs_only es)) tes)) = Inl e
            | Inr (trail', out) \<Rightarrow>
                (\<exists>es'. trail' = Dir (AList.update ''photos'' (Dir es') tes)
                   \<and> (\<forall>n b. map_of es n = Some (File b) \<longrightarrow> map_of es' n = Some (File b))
                   \<and> process_trail L tp (Dir (AList.update ''photos'' (Dir (dirs_only es)) tes))
                       = Inr (Dir (AList.update ''photos'' (Dir (dirs_only es')) tes), out))"
  proof (cases "each_dir (process_waypoint L) (sort (map fst es)) (Dir es, [])")
    case (Inl e)
    with ph sim show ?thesis
      by (simp add: process_trail_char update_conv')
  next
    case (Inr r)
    obtain d' out1 where r: "r = (d', out1)" by (cases r)
    from each_dir_result_Dir Inr r obtain es' where d': "d' = Dir es'" by blast
    from each_dir_kinds [OF keeps_dir_waypoint Inr [unfolded r d']]
    have files: "\<forall>n b. map_of es n = Some (File b) \<longrightarrow> map_of es' n = Some (File b)"
      by blast
    from ph Inr r d' have run1:
      "process_trail L tp (Dir tes) = Inr (Dir (AList.update ''photos'' (Dir es') tes), out1)"
      by (simp add: process_trail_char)
    from sim Inr r d' have run2:
      "process_trail L tp (Dir (AList.update ''photos'' (Dir (dirs_only es)) tes))
         = Inr (Dir (AList.update ''photos'' (Dir (dirs_only es')) tes), out1)"
      by (simp add: process_trail_char update_conv')
    from files run2 show ?thesis
      unfolding run1 by (simp) blast
  qed
qed

lemma demo_trails_distinct: "distinct (map fst demo_trails_entries)"
  by code_simp

lemma demo_photos_distinct: "distinct (map fst demo_photos_entries)"
  by code_simp

theorem C10_non_directories_skipped_witness:
  "\<not> is_dir (Dir demo_trails_entries) [''README.md'']
   \<and> trails_loop demo_pil [''proj'', ''trails''] [''README.md''] (Dir demo_trails_entries, [])
       = Inr (Dir demo_trails_entries, [])
   \<and> \<not> is_dir (Dir demo_photos_entries) [''index.txt'']
   \<and> waypoints_loop demo_pil [''index.txt''] (Dir demo_photos_entries, [])
       = Inr (Dir demo_photos_entries, [])
   \<and> distinct (map fst demo_trails_entries)
   \<and> map_of demo_root_entries ''trails'' = Some (Dir demo_trails_entries)
   \<and> map_of demo_trails_entries ''README.md'' = Some (File ([], (0, 0), []))
   \<and> main demo_pil [''proj''] (Dir demo_root_entries) = Inr (demo_root_done, demo_main_out)
   \<and> main demo_pil [''proj'']
         (Dir (AList.update ''trails'' (Dir (dirs_only demo_trails_entries)) demo_root_entries))
       = Inr (Dir (AList.update ''trails'' (Dir (dirs_only demo_trails_done)) demo_root_entries),
              demo_main_out)
   \<and> map_of demo_trails_done ''README.md'' = Some (File ([], (0, 0), []))
   \<and> distinct (map fst demo_photos_entries)
   \<and> map_of demo_photos_entries ''index.txt'' = Some (File ([], (0, 0), []))
   \<and> process_trail demo_pil [''proj'', ''trails'', ''A'']
         (Dir [(''photos'', Dir demo_photos_entries)])
       = Inr (Dir [(''photos'', Dir demo_photos_done)], demo_waypoint_out)
   \<and> process_trail demo_pil [''proj'', ''trails'', ''A'']
         (Dir (AList.update ''photos'' (Dir (dirs_only demo_photos_entries))
                 [(''photos'', Dir demo_photos_entries)]))
       = Inr (Dir (AList.update ''photos'' (Dir (dirs_only demo_photos_done))
                     [(''photos'', Dir demo_photos_entries)]),
              demo_waypoint_out)
   \<and> map_of demo_photos_done ''index.txt'' = Some (File ([], (0, 0), []))"
proof -
  note c10 = C10_non_directories_skipped
  have nd1: "\<not> is_dir (Dir demo_trails_entries) [''README.md'']"
    by (simp add: is_dir_def demo_trails_entries_def)
  have nd2: "\<not> is_dir (Dir demo_photos_entries) [''index.txt'']"
    by (simp add: is_dir_def demo_photos_entries_def)
  from c10 [where trails = "Dir demo_trails_entries" and n = "''README.md''" and L = demo_pil
      and td = "[''proj'', ''trails'']" and names = "[]" and ?out0.0 = "[]"] nd1
  have s1: "trails_loop demo_pil [''proj'', ''trails''] [''README.md'']
              (Dir demo_trails_entries, []) = Inr (Dir demo_trails_entries, [])"
    by simp
  from c10 [where photos = "Dir demo_photos_entries" and n = "''index.txt''" and L = demo_pil
      and names = "[]" and ?out0.0 = "[]"] nd2
  have s2: "waypoints_loop demo_pil [''index.txt''] (Dir demo_photos_entries, [])
              = Inr (Dir demo_photos_entries, [])"
    by simp
  have tr: "map_of demo_root_entries ''trails'' = Some (Dir demo_trails_entries)"
    by (simp add: demo_root_entries_def)
  have rd: "map_of demo_trails_entries ''README.md'' = Some (File ([], (0, 0), []))"
    by (simp add: demo_trails_entries_def)
  from c10 [where es = demo_trails_entries and res = demo_root_entries and L = demo_pil
      and rd = "[''proj'']"] tr demo_trails_distinct
  have "case main demo_pil [''proj''] (Dir demo_root_entries) of
          Inl e \<Rightarrow>
            main demo_pil [''proj'']
              (Dir (AList.update ''trails'' (Dir (dirs_only demo_trails_entries)) demo_root_entries))
              = Inl e
        | Inr (root', out) \<Rightarrow>
            (\<exists>es'. root' = Dir (AList.update ''trails'' (Dir es') demo_root_entries)
               \<and> (\<forall>n b. map_of demo_trails_entries n = Some (File b)
                     \<longrightarrow> map_of es' n = Some (File b))
               \<and> main demo_pil [''proj'']
                    (Dir (AList.update ''trails'' (Dir (dirs_only demo_trails_entries))
                            demo_root_entries))
                   = Inr (Dir (AList.update ''trails'' (Dir (dirs_only es')) demo_root_entries),
                          out))"
    by blast
  then obtain es' where
    e1: "demo_root_done = Dir (AList.update ''trails'' (Dir es') demo_root_entries)"
    and e2: "\<forall>n b. map_of demo_trails_entries n = Some (File b) \<longrightarrow> map_of es' n = Some (File b)"
    and e3: "main demo_pil [''proj'']
               (Dir (AList.update ''trails'' (Dir (dirs_only demo_trails_entries))
                       demo_root_entries))
             = Inr (Dir (AList.update ''trails'' (Dir (dirs_only es')) demo_root_entries),
                    demo_main_out)"
    unfolding demo_main_run by auto
  from e1 have es': "es' = demo_trails_done"
    by (simp add: demo_root_done_def demo_root_entries_def)
  from e2 rd have f1: "map_of demo_trails_done ''README.md'' = Some (File ([], (0, 0), []))"
    unfolding es' by blast
  note m2 = e3 [unfolded es']
  have ph: "map_of [(''photos'', Dir demo_photos_entries)] ''photos''
              = Some (Dir demo_photos_entries)"
    by simp
  have ix: "map_of demo_photos_entries ''index.txt'' = Some (File ([], (0, 0), []))"
    by (simp add: demo_photos_entries_def)
  from c10 [where es = demo_photos_entries and tes = "[(''photos'', Dir demo_photos_entries)]"
      and L = demo_pil and tp = "[''proj'', ''trails'', ''A'']"] ph demo_photos_distinct
  have "case process_trail demo_pil [''proj'', ''trails'', ''A'']
               (Dir [(''photos'', Dir demo_photos_entries)]) of
          Inl e \<Rightarrow>
            process_trail demo_pil [''proj'', ''trails'', ''A'']
              (Dir (AList.update ''photos'' (Dir (dirs_only demo_photos_entries))
                      [(''photos'', Dir demo_photos_entries)]))
              = Inl e
        | Inr (trail', out) \<Rightarrow>
            (\<exists>es'. trail' = Dir (AList.update ''photos'' (Dir es')
                                  [(''photos'', Dir demo_photos_entries)])
               \<and> (\<forall>n b. map_of demo_photos_entries n = Some (File b)
                     \<longrightarrow> map_of es' n = Some (File b))
               \<and> process_trail demo_pil [''proj'', ''trails'', ''A'']
                    (Dir (AList.update ''photos'' (Dir (dirs_only demo_photos_entries))
                            [(''photos'', Dir demo_photos_entries)]))
                   = Inr (Dir (AList.update ''photos'' (Dir (dirs_only es'))
                                 [(''photos'', Dir demo_photos_entries)]),
                          out))"
    by blast
  then obtain ps' where
    p1: "Dir [(''photos'', Dir demo_photos_done)]
           = Dir (AList.update ''photos'' (Dir ps') [(''photos'', Dir demo_photos_entries)])"
    and p2: "\<forall>n b. map_of demo_photos_entries n = Some (File b) \<longrightarrow> map_of ps' n = Some (File b)"
    and p3: "process_trail demo_pil [''proj'', ''trails'', ''A'']
               (Dir (AList.update ''photos'' (Dir (dirs_only demo_photos_entries))
                       [(''photos'', Dir demo_photos_entries)]))
             = Inr (Dir (AList.update ''photos'' (Dir (dirs_only ps'))
                           [(''photos'', Dir demo_photos_entries)]),
                    demo_waypoint_out)"
    unfolding demo_trail_run by auto
  from p1 have ps': "ps' = demo_photos_done" by simp
  from p2 ix have f2: "map_of demo_photos_done ''index.txt'' = Some (File ([], (0, 0), []))"
    unfolding ps' by blast
  note t2 = p3 [unfolded ps']
  from nd1 s1 nd2 s2 demo_trails_distinct tr rd demo_main_run m2 f1
    demo_photos_distinct ix demo_trail_run t2 f2
  show ?thesis by (intro conjI)
qed

section \<open>Missing directories and failures\<close>

text \<open>
  Claim C7, as stated, at a tree whose trails root exists and holds a trail \<^verbatim>\<open>B\<close> without
  a photos directory: the run reports the missing photos directory, skips the trail and
  ends without error. The check of the trails root is thus not the only missing
  directory that is reported instead of raised.
\<close>

theorem C7_missing_photos_also_reported:
  "exists_path (Dir demo_root_entries) [''trails'']
   \<and> \<not> exists_path (Dir demo_root_entries) [''trails'', ''B'', ''photos'']
   \<and> main demo_pil [''proj''] (Dir demo_root_entries) = Inr (demo_root_done, demo_main_out)
   \<and> NoPhotosDir [''proj'', ''trails'', ''B'', ''photos''] \<in> set demo_main_out"
proof (intro conjI)
  show "exists_path (Dir demo_root_entries) [''trails'']"
    by code_simp
  show "\<not> exists_path (Dir demo_root_entries) [''trails'', ''B'', ''photos'']"
    by code_simp
  show "main demo_pil [''proj''] (Dir demo_root_entries) = Inr (demo_root_done, demo_main_out)"
    by (rule demo_main_run)
  show "NoPhotosDir [''proj'', ''trails'', ''B'', ''photos''] \<in> set demo_main_out"
    by (simp add: demo_main_out_def)
qed

lemma generate_icons_no_logo:
  assumes "lookup root [''images'', ''fcf-logo.png''] = None"
  shows "\<exists>e. generate_icons L root = Inl e"
proof (cases "mkdir_exist_ok root [''icons'']")
  case (Inl e)
  then show ?thesis by (simp add: generate_icons_def)
next
  case (Inr fs0)
  have "\<exists>e. read_file fs0 [''images'', ''fcf-logo.png''] = Inl e"
    using assms Inr
    by (cases root) (auto split: option.splits node.splits sum.splits simp: update_conv')
  then obtain e where "image_open L fs0 [''images'', ''fcf-logo.png''] = Inl e"
    by (auto simp: image_open_def)
  with Inr show ?thesis by (simp add: generate_icons_def)
qed

lemma demo_no_logo: "generate_icons demo_pil (Dir [(''scripts'', Dir [])]) = Inl FileNotFoundError"
  by code_simp

text \<open>
  Claim C7, amended. Without a trails root the run prints one line, leaves the tree as
  it is and ends without error; a trail without a photos directory is reported and
  skipped in the same way. Nothing else is tolerated: when a run ends without error, the
  trails root is not a file and every trail directory was processed without error; when
  a trail is processed without error, its photos directory is not a file and every
  waypoint directory was processed without error; and when a waypoint is processed
  without error, its thumbs entry is not a file and every image file of it decoded to an
  image in a mode the JPEG encoder writes. The icon generator has no such check: without
  the logo file its run ends with an error.
\<close>

theorem C7_missing_dirs_reported_failures_propagate:
  "(\<not> exists_path root [''trails''] \<longrightarrow>
      main L rd root = Inr (root, [TrailsNotFound (rd @ [''trails''])]))
   \<and> (\<not> exists_path trail [''photos''] \<longrightarrow>
        process_trail L tp trail = Inr (trail, [NoPhotosDir (tp @ [''photos''])]))
   \<and> (main L rd (Dir res) = Inr r \<longrightarrow>
        (\<forall>b. map_of res ''trails'' \<noteq> Some (File b))
      \<and> (\<forall>tes t tt. map_of res ''trails'' = Some (Dir tes) \<and> map_of tes t = Some (Dir tt)
            \<longrightarrow> (\<exists>r'. process_trail L (rd @ [''trails'', t]) (Dir tt) = Inr r')))
   \<and> (process_trail L tp (Dir tt) = Inr r2 \<longrightarrow>
        (\<forall>b. map_of tt ''photos'' \<noteq> Some (File b))
      \<and> (\<forall>pes w wes. map_of tt ''photos'' = Some (Dir pes) \<and> map_of pes w = Some (Dir wes)
            \<longrightarrow> (\<exists>r'. process_waypoint L w (Dir wes) = Inr r')))
   \<and> (process_waypoint L w (Dir wes) = Inr r3 \<longrightarrow>
        (\<forall>b. map_of wes ''thumbs'' \<noteq> Some (File b))
      \<and> (\<forall>n. selected wes n
            \<longrightarrow> (\<exists>b img. map_of wes n = Some (File b) \<and> decode L b = Some img
                   \<and> mode (square_thumbnail L img THUMBNAIL_SIZE) \<in> set JPEG_RAWMODE)))
   \<and> (lookup iroot [''images'', ''fcf-logo.png''] = None \<longrightarrow>
        (\<exists>e. generate_icons L iroot = Inl e))"
proof (intro conjI impI allI)
  assume "\<not> exists_path root [''trails'']"
  then show "main L rd root = Inr (root, [TrailsNotFound (rd @ [''trails''])])"
    by (rule main_no_trails)
next
  assume "\<not> exists_path trail [''photos'']"
  then show "process_trail L tp trail = Inr (trail, [NoPhotosDir (tp @ [''photos''])])"
    by (rule process_trail_no_photos)
next
  fix b assume "main L rd (Dir res) = Inr r"
  then show "map_of res ''trails'' \<noteq> Some (File b)"
    by (auto simp: main_char)
next
  fix tes t tt
  assume run: "main L rd (Dir res) = Inr r"
    and at: "map_of res ''trails'' = Some (Dir tes) \<and> map_of tes t = Some (Dir tt)"
  obtain root' out where r: "r = (root', out)" by (cases r)
  from main_Inr [OF run [unfolded r]] at obtain tes' out1 where
    loop: "each_dir (trail_body L (rd @ [''trails''])) (sort (map fst tes)) (Dir tes, [])
             = Inr (Dir tes', out1)"
    by auto
  from at have "t \<in> set (sort (map fst tes))"
    by (auto dest: map_of_SomeD intro: rev_image_eqI)
  from each_dir_all_ok [OF loop this] at
  obtain r' where "trail_body L (rd @ [''trails'']) t (Dir tt) = Inr r'" by blast
  then show "\<exists>r'. process_trail L (rd @ [''trails'', t]) (Dir tt) = Inr r'"
    by (auto simp: trail_body_def split: sum.splits)
next
  fix b assume "process_trail L tp (Dir tt) = Inr r2"
  then show "map_of tt ''photos'' \<noteq> Some (File b)"
    by (auto simp: process_trail_char)
next
  fix pes w wes
  assume run: "process_trail L tp (Dir tt) = Inr r2"
    and at: "map_of tt ''photos'' = Some (Dir pes) \<and> map_of pes w = Some (Dir wes)"
  obtain t' out where r: "r2 = (t', out)" by (cases r2)
  from process_trail_Inr [OF run [unfolded r]] at obtain pes' where
    loop: "each_dir (process_waypoint L) (sort (map fst pes)) (Dir pes, []) = Inr (Dir pes', out)"
    by auto
  from at have "w \<in> set (sort (map fst pes))"
    by (auto dest: map_of_SomeD intro: rev_image_eqI)
  from each_dir_all_ok [OF loop this] at
  show "\<exists>r'. process_waypoint L w (Dir wes) = Inr r'" by blast
next
  fix b assume run: "process_waypoint L w (Dir wes) = Inr r3"
  obtain wp' out where r: "r3 = (wp', out)" by (cases r3)
  from process_waypoint_Inr [OF run [unfolded r]]
  show "map_of wes ''thumbs'' \<noteq> Some (File b)" by blast
next
  fix n
  assume run: "process_waypoint L w (Dir wes) = Inr r3" and sel: "selected wes n"
  obtain wp' out where r: "r3 = (wp', out)" by (cases r3)
  from process_waypoint_Inr [OF run [unfolded r]] obtain ths' where
    loop: "thumbs_loop L wes (inputs wes) (thumbs_entries wes) = Inr ths'" by blast
  from thumbs_loop_all_ok [OF loop selected_in_inputs [OF sel] sel]
  show "\<exists>b img. map_of wes n = Some (File b) \<and> decode L b = Some img
          \<and> mode (square_thumbnail L img THUMBNAIL_SIZE) \<in> set JPEG_RAWMODE"
    by (simp add: thumbnail_args_def)
next
  assume "lookup iroot [''images'', ''fcf-logo.png''] = None"
  then show "\<exists>e. generate_icons L iroot = Inl e"
    by (rule generate_icons_no_logo)
qed

theorem C7_missing_dirs_reported_failures_propagate_witness:
  "\<not> exists_path demo_project [''trails'']
   \<and> main demo_pil [''proj''] demo_project
       = Inr (demo_project, [TrailsNotFound [''proj'', ''trails'']])
   \<and> \<not> exists_path (Dir ([] :: (string \<times> demo_bytes node) list)) [''photos'']
   \<and> process_trail demo_pil [''proj'', ''trails'', ''B''] (Dir [])
       = Inr (Dir [], [NoPhotosDir [''proj'', ''trails'', ''B'', ''photos'']])
   \<and> main demo_pil [''proj''] (Dir demo_root_entries) = Inr (demo_root_done, demo_main_out)
   \<and> (\<exists>r'. process_trail demo_pil [''proj'', ''trails'', ''A'']
               (Dir [(''photos'', Dir demo_photos_entries)]) = Inr r')
   \<and> (\<exists>r'. process_waypoint demo_pil ''W1'' (Dir demo_waypoint_entries) = Inr r')
   \<and> selected demo_waypoint_entries ''img.JPG''
   \<and> (\<exists>b img. map_of demo_waypoint_entries ''img.JPG'' = Some (File b)
         \<and> decode demo_pil b = Some img
         \<and> mode (square_thumbnail demo_pil img THUMBNAIL_SIZE) \<in> set JPEG_RAWMODE)
   \<and> lookup (Dir [(''scripts'', Dir ([] :: (string \<times> demo_bytes node) list))])
         [''images'', ''fcf-logo.png''] = None
   \<and> generate_icons demo_pil (Dir [(''scripts'', Dir [])]) = Inl FileNotFoundError"
proof -
  have no_trails: "\<not> exists_path demo_project [''trails'']"
    by code_simp
  have no_photos: "\<not> exists_path (Dir ([] :: (string \<times> demo_bytes node) list)) [''photos'']"
    by code_simp
  have no_logo: "lookup (Dir [(''scripts'', Dir ([] :: (string \<times> demo_bytes node) list))])
                   [''images'', ''fcf-logo.png''] = None"
    by simp
  note c7 = C7_missing_dirs_reported_failures_propagate
  from c7 [where root = demo_project and L = demo_pil and rd = "[''proj'']"] no_trails
  have a: "main demo_pil [''proj''] demo_project
             = Inr (demo_project, [TrailsNotFound [''proj'', ''trails'']])"
    by simp
  from c7 [where trail = "Dir []" and L = demo_pil and tp = "[''proj'', ''trails'', ''B'']"]
    no_photos
  have b: "process_trail demo_pil [''proj'', ''trails'', ''B''] (Dir [])
             = Inr (Dir [], [NoPhotosDir [''proj'', ''trails'', ''B'', ''photos'']])"
    by simp
  have at1: "map_of demo_root_entries ''trails'' = Some (Dir demo_trails_entries)
             \<and> map_of demo_trails_entries ''A'' = Some (Dir [(''photos'', Dir demo_photos_entries)])"
    by (simp add: demo_root_entries_def demo_trails_entries_def)
  from c7 [where L = demo_pil and rd = "[''proj'']" and res = demo_root_entries
      and r = "(demo_root_done, demo_main_out)"] demo_main_run at1
  obtain r2 where c: "process_trail demo_pil [''proj'', ''trails'', ''A'']
               (Dir [(''photos'', Dir demo_photos_entries)]) = Inr r2"
    by fastforce
  have at2: "map_of [(''photos'', Dir demo_photos_entries)] ''photos'' = Some (Dir demo_photos_entries)
             \<and> map_of demo_photos_entries ''W1'' = Some (Dir demo_waypoint_entries)"
    by (simp add: demo_photos_entries_def)
  from c7 [where L = demo_pil and tp = "[''proj'', ''trails'', ''A'']"
      and tt = "[(''photos'', Dir demo_photos_entries)]" and ?r2.0 = r2] c at2
  obtain r3 where d: "process_waypoint demo_pil ''W1'' (Dir demo_waypoint_entries) = Inr r3"
    by fastforce
  from c7 [where L = demo_pil and w = "''W1''" and wes = demo_waypoint_entries and ?r3.0 = r3]
    d demo_selected
  have e: "\<exists>b img. map_of demo_waypoint_entries ''img.JPG'' = Some (File b)
         \<and> decode demo_pil b = Some img
         \<and> mode (square_thumbnail demo_pil img THUMBNAIL_SIZE) \<in> set JPEG_RAWMODE"
    by blast
  from c7 [where L = demo_pil and iroot = "Dir [(''scripts'', Dir [])]"] no_logo demo_no_logo
  have f: "generate_icons demo_pil (Dir [(''scripts'', Dir [])]) = Inl FileNotFoundError"
    by blast
  from c d have c': "\<exists>r'. process_trail demo_pil [''proj'', ''trails'', ''A'']
               (Dir [(''photos'', Dir demo_photos_entries)]) = Inr r'"
    and d': "\<exists>r'. process_waypoint demo_pil ''W1'' (Dir demo_waypoint_entries) = Inr r'"
    by blast+
  from no_trails a no_photos b demo_main_run c' d' demo_selected e no_logo f
  show ?thesis by (intro conjI)
qed

end
